theory Spec2Isabelle
  imports Complex_Main
begin

section \<open>The event sink of the autoplay carousel (utils/audit.ts)\<close>

text \<open>
  The repository holds two carousels. The autoplay carousel (Carousel.tsx) reports to
  \<open>logUIEvent\<close>; the drag carousel (Carousel.jsx) reports to \<open>logSlideChange\<close>.
  Definitions of the first keep the source's names; those of the second carry the
  suffix \<open>_jsx\<close> where the two files use one name for two functions.
  Indices are JavaScript numbers holding integers and are modelled as \<open>int\<close>.
\<close>

datatype AuditAction = CREATE | READ | UPDATE | DELETE | NAVIGATE | ERROR | INFO

text \<open>The cause of a transition: the string literals of the TypeScript union type.\<close>

datatype cause = Auto | Arrow | Dot | Swipe | Kbd

text \<open>A metadata value (\<open>Record<string, unknown>\<close> holds numbers, strings and booleans here).\<close>

datatype mval = MNum int | MStr string | MBool bool | MCause cause

type_synonym metadata = "(string \<times> mval) list"

record AuditEvent =
  eventName :: string
  action :: AuditAction
  userId :: string
  timestamp :: string
  metadata :: metadata

text \<open>
  The component state of Carousel.tsx: the three \<open>useState\<close> cells, and the environment
  the component writes to: the console (every event handed to \<open>console.log\<close>, oldest
  first) and the clock read by \<open>new Date().toISOString()\<close>.
\<close>

record carousel =
  activeIndex :: int
  isPaused :: bool
  imageErrors :: "string \<rightharpoonup> bool"
  console :: "AuditEvent list"
  clock :: string

text \<open>\<open>logUIEvent\<close>: builds the event and hands it to \<open>console.log\<close>.\<close>

definition logUIEvent :: "string \<Rightarrow> AuditAction \<Rightarrow> metadata \<Rightarrow> carousel \<Rightarrow> carousel" where
  "logUIEvent name act md s =
     s\<lparr>console := console s @
          [\<lparr>eventName = name, action = act, userId = ''anonymous'',
            timestamp = clock s, metadata = md\<rparr>]\<rparr>"

section \<open>Navigation of the autoplay carousel (Carousel.tsx)\<close>

text \<open>\<open>tot\<close> is the source's \<open>total = slides.length\<close>.\<close>

definition clampIndex :: "nat \<Rightarrow> int \<Rightarrow> int" where
  "clampIndex tot index =
     (if index < 0 then int tot - 1
      else if index \<ge> int tot then 0
      else index)"

text \<open>
  \<open>goTo\<close>: the updater passed to \<open>setActiveIndex\<close> compares the previous index with the
  clamped one, logs when they differ, and returns the clamped one. React may run an
  updater more than once for one call of \<open>setActiveIndex\<close> (a development build under
  \<open>React.StrictMode\<close>, which both entry points use, runs it again), each time on the same
  previous index, and keeps one result. \<open>runs\<close> is the number of times the updater runs,
  so the event is logged \<open>runs\<close> times when the index changes.
\<close>

definition goTo_runs :: "nat \<Rightarrow> nat \<Rightarrow> int \<Rightarrow> cause \<Rightarrow> carousel \<Rightarrow> carousel" where
  "goTo_runs runs tot index c s =
     (let nxt = clampIndex tot index;
          prv = activeIndex s;
          s' = (if prv \<noteq> nxt
                then ((logUIEvent ''carousel_slide_change'' NAVIGATE
                         [(''from'', MNum prv), (''to'', MNum nxt), (''cause'', MCause c)])
                      ^^ runs) s
                else s)
      in s'\<lparr>activeIndex := nxt\<rparr>)"

text \<open>
  \<open>goTo\<close> where React runs the updater once, as a production build does. The handlers
  below are stated for this case.
\<close>

definition goTo :: "nat \<Rightarrow> int \<Rightarrow> cause \<Rightarrow> carousel \<Rightarrow> carousel" where
  "goTo tot index c s = goTo_runs 1 tot index c s"

definition next_tsx :: "nat \<Rightarrow> cause \<Rightarrow> carousel \<Rightarrow> carousel" where
  "next_tsx tot c s = goTo tot (activeIndex s + 1) c s"

definition prev_tsx :: "nat \<Rightarrow> cause \<Rightarrow> carousel \<Rightarrow> carousel" where
  "prev_tsx tot c s = goTo tot (activeIndex s - 1) c s"

text \<open>The transition events of a console: the slide-change entries, as (from, to, cause).\<close>

definition transitions :: "AuditEvent list \<Rightarrow> metadata list" where
  "transitions evs = map metadata (filter (\<lambda>e. eventName e = ''carousel_slide_change'') evs)"

section \<open>Construction and handlers of the autoplay carousel (Carousel.tsx)\<close>

record Slide =
  sl_id :: string
  sl_title :: string
  caption :: "string option"
  imageSrc :: string
  sl_alt :: string

text \<open>\<open>AutoplayConfig\<close>: both fields are optional in the source.\<close>

record AutoplayConfig =
  enabled :: "bool option"
  intervalMs :: "int option"

text \<open>A thrown \<open>new Error(message)\<close>.\<close>

datatype error = Error string

definition default_autoplay :: AutoplayConfig where
  "default_autoplay = \<lparr>enabled = Some True, intervalMs = Some 4000\<rparr>"

text \<open>The initial values of the three \<open>useState\<close> cells, with an empty console.\<close>

definition initial :: "string \<Rightarrow> carousel" where
  "initial now =
     \<lparr>activeIndex = 0, isPaused = False, imageErrors = Map.empty, console = [], clock = now\<rparr>"

text \<open>
  The validation at the head of \<open>Carousel\<close> and the messages of the two errors it throws,
  followed by the initial values of the three \<open>useState\<close> cells. \<open>None\<close> for the
  \<open>autoplay\<close> prop is the omitted prop, which takes the default. \<open>slides\<close> is a list, so
  \<open>Array.isArray\<close> holds.
\<close>

definition msg_slides_required :: string where
  \<open>msg_slides_required = ''Carousel: "slides" is required and must be a non-empty array.''\<close>

definition msg_interval_positive :: string where
  \<open>msg_interval_positive =
     ''Carousel: "autoplay.intervalMs" must be > 0 when autoplay is enabled.''\<close>

definition Carousel :: "Slide list \<Rightarrow> AutoplayConfig option \<Rightarrow> string \<Rightarrow> error + carousel" where
  "Carousel slides autoplay_prop now =
     (let autoplay = (case autoplay_prop of None \<Rightarrow> default_autoplay | Some a \<Rightarrow> a)
      in if length slides = 0
         then Inl (Error msg_slides_required)
         else if enabled autoplay = Some True
                 \<and> (case intervalMs autoplay of None \<Rightarrow> False | Some ms \<Rightarrow> ms \<le> 0)
         then Inl (Error msg_interval_positive)
         else Inr (initial now))"

text \<open>The memoised \<open>cfg\<close>: effective enablement and the interval.\<close>

record cfg =
  cfg_enabled :: bool
  cfg_interval :: int

definition cfg_of :: "AutoplayConfig \<Rightarrow> bool \<Rightarrow> cfg" where
  "cfg_of autoplay prefersReducedMotion =
     \<lparr>cfg_enabled = (enabled autoplay = Some True \<and> \<not> prefersReducedMotion),
      cfg_interval = max 1 (case intervalMs autoplay of None \<Rightarrow> 4000 | Some ms \<Rightarrow> ms)\<rparr>"

definition handleHover :: "bool \<Rightarrow> carousel \<Rightarrow> carousel" where
  "handleHover pause s =
     logUIEvent (if pause then ''carousel_hover_pause'' else ''carousel_hover_resume'') READ
       [(''pause'', MBool pause)] (s\<lparr>isPaused := pause\<rparr>)"

definition handleFocus :: "bool \<Rightarrow> carousel \<Rightarrow> carousel" where
  "handleFocus pause s =
     logUIEvent (if pause then ''carousel_focus_pause'' else ''carousel_focus_resume'') READ
       [(''pause'', MBool pause)] (s\<lparr>isPaused := pause\<rparr>)"

definition onKeyDown :: "nat \<Rightarrow> string \<Rightarrow> carousel \<Rightarrow> carousel" where
  "onKeyDown tot key s =
     (if key = ''ArrowRight'' then next_tsx tot Kbd s
      else if key = ''ArrowLeft'' then prev_tsx tot Kbd s
      else s)"

text \<open>
  The click handlers of the two arrow buttons and of the indicator dots. The index they
  log is the one of the render that created the handler, the index before the click.
\<close>

definition click_prev :: "nat \<Rightarrow> carousel \<Rightarrow> carousel" where
  "click_prev tot s =
     logUIEvent ''carousel_prev_click'' READ [(''index'', MNum (activeIndex s))]
       (prev_tsx tot Arrow s)"

definition click_next :: "nat \<Rightarrow> carousel \<Rightarrow> carousel" where
  "click_next tot s =
     logUIEvent ''carousel_next_click'' READ [(''index'', MNum (activeIndex s))]
       (next_tsx tot Arrow s)"

definition click_dot :: "nat \<Rightarrow> nat \<Rightarrow> carousel \<Rightarrow> carousel" where
  "click_dot tot i s =
     logUIEvent ''carousel_indicator_click'' READ [(''to'', MNum (int i))]
       (goTo tot (int i) Dot s)"

text \<open>\<open>onImageError\<close>: \<open>{ ...prev, [id]: true }\<close>, then the error event.\<close>

definition onImageError :: "string \<Rightarrow> carousel \<Rightarrow> carousel" where
  "onImageError sid s =
     logUIEvent ''carousel_image_error'' ERROR [(''slideId'', MStr sid)]
       (s\<lparr>imageErrors := (imageErrors s)(sid \<mapsto> True)\<rparr>)"

text \<open>The image-error events of a console.\<close>

definition error_events :: "AuditEvent list \<Rightarrow> AuditEvent list" where
  "error_events evs = filter (\<lambda>e. eventName e = ''carousel_image_error'') evs"

text \<open>The image-error events of a console that report the slide \<open>sid\<close>.\<close>

definition error_events_of :: "string \<Rightarrow> AuditEvent list \<Rightarrow> AuditEvent list" where
  "error_events_of sid evs =
     filter (\<lambda>e. eventName e = ''carousel_image_error''
                 \<and> metadata e = [(''slideId'', MStr sid)]) evs"

section \<open>Touch swipes of the autoplay carousel (useSwipe)\<close>

text \<open>A touch point or pointer event: the two coordinates the handlers read.\<close>

record touch =
  clientX :: real
  clientY :: real

text \<open>The three local variables of the \<open>useSwipe\<close> effect.\<close>

record swipe =
  touch_startX :: real
  touch_startY :: real
  tracking :: bool

text \<open>The \<open>onTouchStart\<close> and \<open>onTouchEnd\<close> handlers that \<open>Carousel\<close> passes to \<open>useSwipe\<close>.\<close>

definition handlers_onTouchStart :: "cfg \<Rightarrow> carousel \<Rightarrow> carousel" where
  "handlers_onTouchStart cf s =
     (if cfg_enabled cf then logUIEvent ''carousel_touch_pause'' READ [] (s\<lparr>isPaused := True\<rparr>)
      else s)"

definition handlers_onTouchEnd :: "cfg \<Rightarrow> carousel \<Rightarrow> carousel" where
  "handlers_onTouchEnd cf s =
     (if cfg_enabled cf then logUIEvent ''carousel_touch_resume'' READ [] (s\<lparr>isPaused := False\<rparr>)
      else s)"

text \<open>The default of the \<open>threshold\<close> parameter of \<open>useSwipe\<close>.\<close>

definition default_threshold :: real where
  "default_threshold = 30"

definition onTouchStart :: "cfg \<Rightarrow> touch \<Rightarrow> swipe \<times> carousel \<Rightarrow> swipe \<times> carousel" where
  "onTouchStart cf t p =
     (case p of (sw, s) \<Rightarrow>
        (sw\<lparr>touch_startX := clientX t, touch_startY := clientY t, tracking := True\<rparr>,
         handlers_onTouchStart cf s))"

text \<open>
  \<open>onTouchEnd\<close>: \<open>onSwipeLeft\<close> is \<open>next('swipe')\<close> and \<open>onSwipeRight\<close> is \<open>prev('swipe')\<close>;
  the \<open>finally\<close> block clears \<open>tracking\<close> on every path.
\<close>

definition onTouchEnd :: "nat \<Rightarrow> cfg \<Rightarrow> real \<Rightarrow> touch \<Rightarrow> swipe \<times> carousel \<Rightarrow> swipe \<times> carousel" where
  "onTouchEnd tot cf threshold t p =
     (case p of (sw, s) \<Rightarrow>
        if \<not> tracking sw then (sw\<lparr>tracking := False\<rparr>, s)
        else
          let dx = clientX t - touch_startX sw;
              dy = clientY t - touch_startY sw;
              s1 = (if \<bar>dx\<bar> > \<bar>dy\<bar> \<and> \<bar>dx\<bar> > threshold
                    then (if dx < 0 then next_tsx tot Swipe s else prev_tsx tot Swipe s)
                    else s)
          in (sw\<lparr>tracking := False\<rparr>, handlers_onTouchEnd cf s1))"

section \<open>Navigation of the drag carousel (Carousel.jsx, utils/audit.js)\<close>

record audit_event_jsx =
  ae_timestamp :: string
  ae_action :: string
  ae_component :: string
  ae_metadata :: metadata
  ae_userId :: string

text \<open>\<open>posRef.current\<close>\<close>

record posRef =
  startX :: real
  currentX :: real
  isDragging :: bool
  startTranslate :: real

text \<open>
  The state of Carousel.jsx: the active index, the drag state, the horizontal offset of
  the track in pixels (the \<open>translateX\<close> of its style), the console and the clock.
\<close>

record carousel_jsx =
  activeIndex_jsx :: int
  pos :: posRef
  trackX :: real
  console_jsx :: "audit_event_jsx list"
  clock_jsx :: string

definition createAuditEvent :: "string \<Rightarrow> string \<Rightarrow> metadata \<Rightarrow> string \<Rightarrow> string \<Rightarrow> audit_event_jsx" where
  "createAuditEvent act cmpn md uid now =
     \<lparr>ae_timestamp = now, ae_action = act, ae_component = cmpn, ae_metadata = md, ae_userId = uid\<rparr>"

text \<open>
  \<open>logSlideChange\<close>: the three indices are integers here, so \<open>Number.isFinite\<close> holds of
  each and none is replaced by \<open>null\<close>. \<open>logAuditEvent\<close> prints the event on the console.
\<close>

definition logSlideChange :: "int \<Rightarrow> int \<Rightarrow> nat \<Rightarrow> string \<Rightarrow> carousel_jsx \<Rightarrow> carousel_jsx" where
  "logSlideChange fromIndex toIndex tot uid s =
     s\<lparr>console_jsx := console_jsx s @
          [createAuditEvent ''INTERACT'' ''Carousel''
             [(''interaction'', MStr ''slide_change''), (''beforeIndex'', MNum fromIndex),
              (''afterIndex'', MNum toIndex), (''totalSlides'', MNum (int tot))]
             uid (clock_jsx s)]\<rparr>"

text \<open>\<open>Math.max(0, Math.min(idx, slides.length - 1))\<close>\<close>

definition clampIndex_jsx :: "nat \<Rightarrow> int \<Rightarrow> int" where
  "clampIndex_jsx tot idx = max 0 (min idx (int tot - 1))"

text \<open>
  \<open>goTo\<close> of Carousel.jsx logs inside the updater as well; \<open>runs\<close> is again the number of
  times React runs the updater, and \<open>goTo_jsx\<close> is the case of one run.
\<close>

definition goTo_jsx_runs :: "nat \<Rightarrow> nat \<Rightarrow> string \<Rightarrow> int \<Rightarrow> carousel_jsx \<Rightarrow> carousel_jsx" where
  "goTo_jsx_runs runs tot uid nextIdx s =
     (let prv = activeIndex_jsx s;
          clamped = clampIndex_jsx tot nextIdx;
          s' = (if clamped \<noteq> prv then ((logSlideChange prv clamped tot uid) ^^ runs) s else s)
      in s'\<lparr>activeIndex_jsx := clamped\<rparr>)"

definition goTo_jsx :: "nat \<Rightarrow> string \<Rightarrow> int \<Rightarrow> carousel_jsx \<Rightarrow> carousel_jsx" where
  "goTo_jsx tot uid nextIdx s = goTo_jsx_runs 1 tot uid nextIdx s"

definition next_jsx :: "nat \<Rightarrow> string \<Rightarrow> carousel_jsx \<Rightarrow> carousel_jsx" where
  "next_jsx tot uid s = goTo_jsx tot uid (activeIndex_jsx s + 1) s"

definition prev_jsx :: "nat \<Rightarrow> string \<Rightarrow> carousel_jsx \<Rightarrow> carousel_jsx" where
  "prev_jsx tot uid s = goTo_jsx tot uid (activeIndex_jsx s - 1) s"

text \<open>
  The initial state of Carousel.jsx. \<open>startIndex\<close> is an integer here, so
  \<open>Number.isFinite(startIndex)\<close> holds.
\<close>

definition Carousel_jsx :: "nat \<Rightarrow> int \<Rightarrow> string \<Rightarrow> carousel_jsx" where
  "Carousel_jsx tot startIndex now =
     \<lparr>activeIndex_jsx = (if startIndex \<ge> 0 \<and> startIndex < int tot then startIndex else 0),
      pos = \<lparr>startX = 0, currentX = 0, isDragging = False, startTranslate = 0\<rparr>,
      trackX = 0, console_jsx = [], clock_jsx = now\<rparr>"

text \<open>
  The effect that aligns the track to the active index; \<open>slideW\<close> is what \<open>getSlideWidth\<close>
  measures and 32 is the gap.
\<close>

definition align :: "real \<Rightarrow> carousel_jsx \<Rightarrow> carousel_jsx" where
  "align slideW s = s\<lparr>trackX := - (real_of_int (activeIndex_jsx s) * (slideW + 32))\<rparr>"

text \<open>
  The drag handlers, with the track mounted. \<open>onPointerDown\<close> reads the current offset
  back from the computed style. The handlers read \<open>clientX\<close> only. The animation frame
  that \<open>onPointerMove\<close> requests is taken to run at once.
\<close>

definition onPointerDown :: "touch \<Rightarrow> carousel_jsx \<Rightarrow> carousel_jsx" where
  "onPointerDown e s =
     s\<lparr>pos := (pos s)\<lparr>isDragging := True, startX := clientX e, startTranslate := trackX s\<rparr>\<rparr>"

definition onPointerMove :: "touch \<Rightarrow> carousel_jsx \<Rightarrow> carousel_jsx" where
  "onPointerMove e s =
     (if \<not> isDragging (pos s) then s
      else let p = (pos s)\<lparr>currentX := clientX e\<rparr>;
               delta = clientX e - startX p
           in s\<lparr>pos := p, trackX := startTranslate p + delta\<rparr>)"

text \<open>
  \<open>onPointerUp\<close>: beyond the threshold of 40 pixels it calls \<open>next\<close> or \<open>prev\<close>, and the
  align effect runs when the index changed; otherwise it snaps the track back.
\<close>

definition onPointerUp :: "real \<Rightarrow> nat \<Rightarrow> string \<Rightarrow> carousel_jsx \<Rightarrow> carousel_jsx" where
  "onPointerUp slideW tot uid s =
     (if \<not> isDragging (pos s) then s
      else
        let s1 = s\<lparr>pos := (pos s)\<lparr>isDragging := False\<rparr>\<rparr>;
            delta = currentX (pos s1) - startX (pos s1);
            threshold = 40
        in if \<bar>delta\<bar> > threshold
           then (let s2 = (if delta < 0 then next_jsx tot uid s1 else prev_jsx tot uid s1)
                 in if activeIndex_jsx s2 \<noteq> activeIndex_jsx s1 then align slideW s2 else s2)
           else align slideW s1)"

text \<open>
  CarouselSlide.jsx: the slide's own \<open>error\<close> flag; \<open>onError\<close> sets it and reports nothing.
\<close>

definition CarouselSlide_onError :: "bool \<times> carousel_jsx \<Rightarrow> bool \<times> carousel_jsx" where
  "CarouselSlide_onError p = (case p of (err, s) \<Rightarrow> (True, s))"

text \<open>
  An error event of the slide's \<open>img\<close>: the \<open>img\<close> is rendered, and its \<open>onError\<close> can run,
  only while the flag is not set.
\<close>

definition CarouselSlide_imgError :: "bool \<times> carousel_jsx \<Rightarrow> bool \<times> carousel_jsx" where
  "CarouselSlide_imgError p = (case p of (err, s) \<Rightarrow> if err then p else CarouselSlide_onError p)"

section \<open>Sequences of next and previous calls\<close>

datatype nav = Next cause | Previous cause

fun nav_step :: "nat \<Rightarrow> nav \<Rightarrow> carousel \<Rightarrow> carousel" where
  "nav_step tot (Next c) s = next_tsx tot c s"
| "nav_step tot (Previous c) s = prev_tsx tot c s"

text \<open>The states reached after each call of a sequence, in order.\<close>

fun run_nav :: "nat \<Rightarrow> nav list \<Rightarrow> carousel \<Rightarrow> carousel list" where
  "run_nav tot [] s = []"
| "run_nav tot (n # ns) s = (let s' = nav_step tot n s in s' # run_nav tot ns s')"

datatype nav_jsx = Next_jsx | Previous_jsx

fun nav_step_jsx :: "nat \<Rightarrow> string \<Rightarrow> nav_jsx \<Rightarrow> carousel_jsx \<Rightarrow> carousel_jsx" where
  "nav_step_jsx tot uid Next_jsx s = next_jsx tot uid s"
| "nav_step_jsx tot uid Previous_jsx s = prev_jsx tot uid s"

fun run_nav_jsx :: "nat \<Rightarrow> string \<Rightarrow> nav_jsx list \<Rightarrow> carousel_jsx \<Rightarrow> carousel_jsx list" where
  "run_nav_jsx tot uid [] s = []"
| "run_nav_jsx tot uid (n # ns) s =
     (let s' = nav_step_jsx tot uid n s in s' # run_nav_jsx tot uid ns s')"

text \<open>\<open>next\<close> called once for each cause of a list, in order.\<close>

fun next_times :: "nat \<Rightarrow> cause list \<Rightarrow> carousel \<Rightarrow> carousel" where
  "next_times tot [] s = s"
| "next_times tot (c # cs) s = next_times tot cs (next_tsx tot c s)"

fun next_times_jsx :: "nat \<Rightarrow> string \<Rightarrow> nat \<Rightarrow> carousel_jsx \<Rightarrow> carousel_jsx" where
  "next_times_jsx tot uid 0 s = s"
| "next_times_jsx tot uid (Suc k) s = next_times_jsx tot uid k (next_jsx tot uid s)"

section \<open>The slide sanitizer (data/slides.js)\<close>

text \<open>
  The values \<open>validateSlides\<close> may be handed (its parameter is \<open>unknown\<close>): the JSON-like
  part of JavaScript's values. An object is its list of properties; where a key occurs
  twice the first occurrence counts.
\<close>

datatype jsval =
    JUndefined | JNull | JBool bool | JNum int | JStr string
  | JArr "jsval list" | JObj "(string \<times> jsval) list"

record CarouselSlide =
  cs_id :: string
  cs_title :: string
  cs_description :: string
  cs_image :: string
  cs_alt :: string

definition fallback :: CarouselSlide where
  "fallback =
     \<lparr>cs_id = ''fallback'', cs_title = ''Unavailable'',
      cs_description = ''Content could not be loaded.'',
      cs_image = ''/images/placeholder.jpg'', cs_alt = ''Placeholder image''\<rparr>"

text \<open>
  \<open>String.prototype.trim\<close> on strings of code units below 256: the white space and line
  terminators in that range are tab, line feed, vertical tab, form feed, carriage return,
  space and the no-break space.
\<close>

definition is_ws :: "char \<Rightarrow> bool" where
  "is_ws ch = (of_char ch \<in> {9, 10, 11, 12, 13, 32, 160 :: nat})"

definition trim :: "string \<Rightarrow> string" where
  "trim s = rev (dropWhile is_ws (rev (dropWhile is_ws s)))"

text \<open>\<open>s.key\<close>: an absent property, and any property of an array here, reads as \<open>undefined\<close>.\<close>

fun get_prop :: "jsval \<Rightarrow> string \<Rightarrow> jsval" where
  "get_prop (JObj kvs) k = (case map_of kvs k of None \<Rightarrow> JUndefined | Some v \<Rightarrow> v)"
| "get_prop v k = JUndefined"

text \<open>
  The filter \<open>s && typeof s === 'object'\<close>: objects and arrays pass (\<open>typeof []\<close> is
  \<open>'object'\<close>); \<open>null\<close> is falsy, and every other value has another \<open>typeof\<close>.
\<close>

fun is_object :: "jsval \<Rightarrow> bool" where
  "is_object (JObj kvs) = True"
| "is_object (JArr xs) = True"
| "is_object v = False"

text \<open>\<open>Array.isArray\<close>\<close>

fun is_array :: "jsval \<Rightarrow> bool" where
  "is_array (JArr xs) = True"
| "is_array v = False"

text \<open>An index in decimal, as the template literal \<open>`slide-${idx}`\<close> prints it.\<close>

definition digit :: "nat \<Rightarrow> char" where
  "digit d = char_of (d + of_char CHR ''0'')"

fun decimal :: "nat \<Rightarrow> string" where
  "decimal idx = (if 10 \<le> idx then decimal (idx div 10) @ [digit (idx mod 10)] else [digit idx])"

declare decimal.simps [simp del]

text \<open>
  \<open>typeof v === 'string' && v.trim() ? v.trim() : dflt\<close>, the pattern of the fields
  \<open>title\<close>, \<open>description\<close>, \<open>image\<close> and \<open>alt\<close>.
\<close>

definition trimmed_or :: "jsval \<Rightarrow> string \<Rightarrow> string" where
  "trimmed_or v dflt =
     (case v of JStr str \<Rightarrow> (if trim str \<noteq> [] then trim str else dflt) | _ \<Rightarrow> dflt)"

text \<open>The body of the \<open>map\<close> callback; the \<open>id\<close> is kept untrimmed.\<close>

definition sanitize :: "jsval \<Rightarrow> nat \<Rightarrow> CarouselSlide" where
  "sanitize s idx =
     (let i = (case get_prop s ''id'' of
                 JStr str \<Rightarrow> (if trim str \<noteq> [] then str else ''slide-'' @ decimal idx)
               | _ \<Rightarrow> ''slide-'' @ decimal idx);
          title = trimmed_or (get_prop s ''title'') ''Untitled'';
          description = trimmed_or (get_prop s ''description'') ''No description provided.'';
          image = trimmed_or (get_prop s ''image'') ''/images/placeholder.jpg'';
          alt = trimmed_or (get_prop s ''alt'') (title @ '' image'')
      in \<lparr>cs_id = i, cs_title = title, cs_description = description, cs_image = image,
          cs_alt = alt\<rparr>)"

text \<open>\<open>xs.map((s, idx) => f s idx)\<close>, counting from \<open>i\<close>.\<close>

fun map_idx :: "('a \<Rightarrow> nat \<Rightarrow> 'b) \<Rightarrow> nat \<Rightarrow> 'a list \<Rightarrow> 'b list" where
  "map_idx f i [] = []"
| "map_idx f i (x # xs) = f x i # map_idx f (Suc i) xs"

definition validateSlides :: "jsval \<Rightarrow> CarouselSlide list" where
  "validateSlides items =
     (case items of
        JArr xs \<Rightarrow> map_idx sanitize 0 (filter is_object xs)
      | _ \<Rightarrow> [fallback])"

text \<open>A slide whose five fields are all non-empty strings.\<close>

definition filled :: "CarouselSlide \<Rightarrow> bool" where
  "filled sl = (cs_id sl \<noteq> [] \<and> cs_title sl \<noteq> [] \<and> cs_description sl \<noteq> []
                \<and> cs_image sl \<noteq> [] \<and> cs_alt sl \<noteq> [])"

section \<open>The sinks with a console that may throw\<close>

text \<open>
  Above, \<open>console.log\<close> and \<open>console.info\<close> return. Here the console is a parameter: a
  console function answers \<open>None\<close> when it returns and \<open>Some e\<close> when it throws \<open>e\<close>, and a
  function of the source returns \<open>Inl e\<close> when \<open>e\<close> leaves it.
\<close>

text \<open>\<open>logUIEvent\<close> (utils/audit.ts): the call of \<open>console.log\<close> is not guarded.\<close>

definition logUIEvent_env ::
  "(AuditEvent \<Rightarrow> error option) \<Rightarrow> string \<Rightarrow> AuditAction \<Rightarrow> metadata \<Rightarrow> carousel
     \<Rightarrow> error + carousel" where
  "logUIEvent_env console_log name act md s =
     (let evt = \<lparr>eventName = name, action = act, userId = ''anonymous'',
                 timestamp = clock s, metadata = md\<rparr>
      in case console_log evt of
           Some e \<Rightarrow> Inl e
         | None \<Rightarrow> Inr (s\<lparr>console := console s @ [evt]\<rparr>))"

text \<open>\<open>handleHover\<close>: \<open>setIsPaused\<close>, then \<open>logUIEvent\<close>, with no \<open>try\<close> around either.\<close>

definition handleHover_env ::
  "(AuditEvent \<Rightarrow> error option) \<Rightarrow> bool \<Rightarrow> carousel \<Rightarrow> error + carousel" where
  "handleHover_env console_log pause s =
     logUIEvent_env console_log
       (if pause then ''carousel_hover_pause'' else ''carousel_hover_resume'') READ
       [(''pause'', MBool pause)] (s\<lparr>isPaused := pause\<rparr>)"

text \<open>
  \<open>logAuditEvent\<close> (utils/audit.js): \<open>console.info\<close> of the serialised event inside \<open>try\<close>,
  \<open>console.error\<close> in the \<open>catch\<close>. \<open>console_info\<close> stands for \<open>JSON.stringify\<close> followed
  by \<open>console.info\<close>.
\<close>

definition logAuditEvent_env ::
  "(audit_event_jsx \<Rightarrow> error option) \<Rightarrow> (error \<Rightarrow> error option) \<Rightarrow> audit_event_jsx
     \<Rightarrow> carousel_jsx \<Rightarrow> error + carousel_jsx" where
  "logAuditEvent_env console_info console_error ev s =
     (case console_info ev of
        None \<Rightarrow> Inr (s\<lparr>console_jsx := console_jsx s @ [ev]\<rparr>)
      | Some e \<Rightarrow> (case console_error e of None \<Rightarrow> Inr s | Some e' \<Rightarrow> Inl e'))"

section \<open>The mounted autoplay carousel: timers, effects and events\<close>

text \<open>
  What the component is mounted with: the number of slides, the \<open>autoplay\<close> prop, and the
  environment's \<open>window.setTimeout\<close>, which either returns or throws an error with the given
  message (the case the \<open>try\<close> around it is written for).
\<close>

record env =
  slides_total :: nat
  autoplay :: AutoplayConfig
  setTimeout_error :: "string option"

text \<open>
  The mounted component. \<open>pending\<close> holds the timeouts this component has set and that
  have neither fired nor been cleared: the timer id and the active index captured by the
  \<open>next\<close> that the callback \<open>() => next('auto')\<close> closes over. \<open>fresh\<close> is the id the next
  \<open>setTimeout\<close> returns (ids are positive). \<open>live\<close> is the cleanup function returned by
  the last run of the autoplay effect, with the active index it captured, or \<open>None\<close> when
  that run returned none. \<open>reduced\<close> is the state of \<open>usePrefersReducedMotion\<close>.
\<close>

record app =
  car :: carousel
  touches :: swipe
  reduced :: bool
  timerRef :: "nat option"
  pending :: "(nat \<times> int) list"
  fresh :: nat
  live :: "int option"
  mounted :: bool

text \<open>The effect that logs the initial autoplay state.\<close>

definition autoplay_init_effect :: "env \<Rightarrow> app \<Rightarrow> app" where
  "autoplay_init_effect en w =
     (let cf = cfg_of (autoplay en) (reduced w)
      in if cfg_enabled cf
         then w\<lparr>car := logUIEvent ''carousel_autoplay_init'' INFO
                          [(''enabled'', MBool True), (''intervalMs'', MNum (cfg_interval cf))]
                          (car w)\<rparr>
         else w\<lparr>car := logUIEvent ''carousel_autoplay_init'' INFO
                          [(''enabled'', MBool False),
                           (''reason'', MStr (if reduced w then ''prefers-reduced-motion''
                                             else ''disabled-config''))]
                          (car w)\<rparr>)"

text \<open>
  The body of the autoplay effect. It returns without a cleanup when autoplay is not
  effectively enabled or the carousel is paused; otherwise it sets the timeout, stores
  its id in \<open>timerRef\<close> and logs, or logs the error \<open>setTimeout\<close> threw.
\<close>

definition autoplay_effect :: "env \<Rightarrow> app \<Rightarrow> app" where
  "autoplay_effect en w =
     (let cf = cfg_of (autoplay en) (reduced w);
          idx = activeIndex (car w)
      in if \<not> cfg_enabled cf \<or> isPaused (car w) then w\<lparr>live := None\<rparr>
         else (case setTimeout_error en of
                 None \<Rightarrow>
                   w\<lparr>timerRef := Some (fresh w),
                     pending := pending w @ [(fresh w, idx)],
                     fresh := Suc (fresh w),
                     car := logUIEvent ''carousel_autoplay_start'' READ
                              [(''index'', MNum idx), (''intervalMs'', MNum (cfg_interval cf))]
                              (car w),
                     live := Some idx\<rparr>
               | Some msg \<Rightarrow>
                   w\<lparr>car := logUIEvent ''carousel_timer_error'' ERROR [(''message'', MStr msg)]
                              (car w),
                     live := Some idx\<rparr>))"

text \<open>
  The cleanup the effect returns: \<open>if (timerRef.current)\<close> holds of an id other than \<open>0\<close>;
  \<open>clearTimeout\<close> removes the timer from the pending ones.
\<close>

definition autoplay_cleanup :: "int \<Rightarrow> app \<Rightarrow> app" where
  "autoplay_cleanup idx w =
     (case timerRef w of
        None \<Rightarrow> w
      | Some t \<Rightarrow>
          if t = 0 then w
          else w\<lparr>pending := filter (\<lambda>p. fst p \<noteq> t) (pending w),
                 timerRef := None,
                 car := logUIEvent ''carousel_autoplay_stop'' READ
                          [(''index'', MNum idx), (''reason'', MStr ''cleanup'')] (car w)\<rparr>)"

text \<open>The dependency arrays of the two effects, with \<open>total\<close> fixed.\<close>

definition deps_init :: "env \<Rightarrow> app \<Rightarrow> bool \<times> int \<times> bool" where
  "deps_init en w =
     (let cf = cfg_of (autoplay en) (reduced w) in (cfg_enabled cf, cfg_interval cf, reduced w))"

definition deps_autoplay :: "env \<Rightarrow> app \<Rightarrow> bool \<times> int \<times> bool \<times> int" where
  "deps_autoplay en w =
     (let cf = cfg_of (autoplay en) (reduced w)
      in (cfg_enabled cf, cfg_interval cf, isPaused (car w), activeIndex (car w)))"

text \<open>
  React's contract for effects, applied after a handler has turned \<open>old\<close> into \<open>w\<close>: an
  effect whose dependencies changed is run again, after the cleanup that its previous run
  returned; cleanups run before effects, effects in the order of their declaration.
  A state change, the render and the effects that follow it are one step here.
\<close>

definition run_effects :: "env \<Rightarrow> app \<Rightarrow> app \<Rightarrow> app" where
  "run_effects en old w =
     (if \<not> mounted w then w
      else
        let rerun = (deps_autoplay en w \<noteq> deps_autoplay en old);
            w1 = (if rerun
                  then (case live w of None \<Rightarrow> w | Some idx \<Rightarrow> autoplay_cleanup idx w)
                  else w);
            w2 = (if deps_init en w \<noteq> deps_init en old then autoplay_init_effect en w1 else w1)
        in if rerun then autoplay_effect en w2 else w2)"

text \<open>
  The effect of \<open>useSwipe\<close> depends on the \<open>handlers\<close> object, which every render of
  \<open>Carousel\<close> creates anew: after each render the effect starts over, with listeners
  whose \<open>startX\<close>, \<open>startY\<close> and \<open>tracking\<close> are fresh. A render follows a change of the
  active index, of the pause flag or of the reduced-motion state (and every
  \<open>setImageErrors\<close>, which stores a new object; see \<open>handle\<close>).
\<close>

definition idle_swipe :: swipe where
  "idle_swipe = \<lparr>touch_startX = 0, touch_startY = 0, tracking = False\<rparr>"

definition rendered :: "app \<Rightarrow> app \<Rightarrow> bool" where
  "rendered old w =
     (activeIndex (car w) \<noteq> activeIndex (car old) \<or> isPaused (car w) \<noteq> isPaused (car old)
      \<or> reduced w \<noteq> reduced old)"

definition settle :: "env \<Rightarrow> app \<Rightarrow> app \<Rightarrow> app" where
  "settle en old w =
     (if \<not> mounted w then w
      else let w' = run_effects en old w
           in if rendered old w then w'\<lparr>touches := idle_swipe\<rparr> else w')"

text \<open>Mounting, for props that passed the validation: the initial state, then both effects.\<close>

definition mount :: "env \<Rightarrow> string \<Rightarrow> app" where
  "mount en now =
     autoplay_effect en
       (autoplay_init_effect en
          \<lparr>car = initial now,
           touches = idle_swipe,
           reduced = False, timerRef = None, pending = [], fresh = 1, live = None,
           mounted = True\<rparr>)"

text \<open>Unmounting runs the cleanup of the last run of the autoplay effect.\<close>

definition unmount :: "app \<Rightarrow> app" where
  "unmount w =
     (case live w of None \<Rightarrow> w | Some idx \<Rightarrow> autoplay_cleanup idx w)\<lparr>live := None, mounted := False\<rparr>"

text \<open>
  What can happen to the component: a timeout elapses, the DOM events its JSX listens to,
  the media query of the reduced-motion preference reports, and the unmount.
\<close>

datatype event =
    TimerFires nat
  | MouseEnter | MouseLeave | FocusCapture | BlurCapture
  | KeyDown string
  | TouchStart touch | TouchEnd touch
  | ClickPrev | ClickNext | ClickDot nat
  | ImageError string
  | ReducedMotion bool
  | Unmount

text \<open>
  The callback of a timeout, \<open>() => next('auto')\<close>, with the active index its \<open>next\<close>
  captured.
\<close>

definition timer_callback :: "nat \<Rightarrow> int \<Rightarrow> carousel \<Rightarrow> carousel" where
  "timer_callback tot idx s = goTo tot (idx + 1) Auto s"

text \<open>
  The handler of an event. A timeout fires only while it is pending, and is then no longer
  pending; when it fires its callback runs whether or not the component is still mounted.
  A dot exists for each slide; the \<open>img\<close> of a slide is rendered, and can report an error,
  only while the slide is not flagged; the render that follows \<open>setImageErrors\<close> starts
  the swipe listeners over.
\<close>

definition handle :: "env \<Rightarrow> event \<Rightarrow> app \<Rightarrow> app" where
  "handle en e w =
     (let tot = slides_total en;
          cf = cfg_of (autoplay en) (reduced w)
      in case e of
           TimerFires k \<Rightarrow>
             (case map_of (pending w) k of
                None \<Rightarrow> w
              | Some idx \<Rightarrow>
                  w\<lparr>pending := filter (\<lambda>p. fst p \<noteq> k) (pending w),
                    car := timer_callback tot idx (car w)\<rparr>)
         | MouseEnter \<Rightarrow> w\<lparr>car := handleHover True (car w)\<rparr>
         | MouseLeave \<Rightarrow> w\<lparr>car := handleHover False (car w)\<rparr>
         | FocusCapture \<Rightarrow> w\<lparr>car := handleFocus True (car w)\<rparr>
         | BlurCapture \<Rightarrow> w\<lparr>car := handleFocus False (car w)\<rparr>
         | KeyDown key \<Rightarrow> w\<lparr>car := onKeyDown tot key (car w)\<rparr>
         | TouchStart t \<Rightarrow>
             (case onTouchStart cf t (touches w, car w) of (sw', c') \<Rightarrow> w\<lparr>touches := sw', car := c'\<rparr>)
         | TouchEnd t \<Rightarrow>
             (case onTouchEnd tot cf default_threshold t (touches w, car w) of
                (sw', c') \<Rightarrow> w\<lparr>touches := sw', car := c'\<rparr>)
         | ClickPrev \<Rightarrow> w\<lparr>car := click_prev tot (car w)\<rparr>
         | ClickNext \<Rightarrow> w\<lparr>car := click_next tot (car w)\<rparr>
         | ClickDot i \<Rightarrow> (if i < tot then w\<lparr>car := click_dot tot i (car w)\<rparr> else w)
         | ImageError sid \<Rightarrow>
             (if imageErrors (car w) sid = Some True then w
              else w\<lparr>car := onImageError sid (car w), touches := idle_swipe\<rparr>)
         | ReducedMotion b \<Rightarrow> w\<lparr>reduced := b\<rparr>
         | Unmount \<Rightarrow> w)"

text \<open>
  One event: the unmount; a timeout, whose callback needs no mounted component; or a DOM
  event, which reaches the handlers only while the component is mounted.
\<close>

definition is_timer :: "event \<Rightarrow> bool" where
  "is_timer e = (case e of TimerFires k \<Rightarrow> True | _ \<Rightarrow> False)"

definition dispatch :: "env \<Rightarrow> event \<Rightarrow> app \<Rightarrow> app" where
  "dispatch en e w =
     (if e = Unmount then (if mounted w then unmount w else w)
      else if is_timer e \<or> mounted w then settle en w (handle en e w)
      else w)"

fun run :: "env \<Rightarrow> event list \<Rightarrow> app \<Rightarrow> app" where
  "run en [] w = w"
| "run en (e # es) w = run en es (dispatch en e w)"

text \<open>
  The invariant of the timers: at most one timeout is pending; a pending one is the one
  \<open>timerRef\<close> holds, its callback captured the current active index, the component is
  mounted with a cleanup in place, not paused, and autoplay is effectively enabled.
\<close>

definition timers_ok :: "env \<Rightarrow> app \<Rightarrow> bool" where
  "timers_ok en w =
     (0 < fresh w \<and>
      (case pending w of
         [] \<Rightarrow> True
       | [p] \<Rightarrow>
           snd p = activeIndex (car w) \<and> timerRef w = Some (fst p) \<and> 0 < fst p
           \<and> live w \<noteq> None \<and> mounted w \<and> \<not> isPaused (car w)
           \<and> cfg_enabled (cfg_of (autoplay en) (reduced w))
       | _ \<Rightarrow> False))"

text \<open>
  Every slide id has one image-error event on the console if it is flagged, and none
  otherwise.
\<close>

definition logged_once :: "app \<Rightarrow> bool" where
  "logged_once w =
     (\<forall>sid. length (error_events_of sid (console (car w))) =
              (if imageErrors (car w) sid = Some True then 1 else 0))"

text \<open>Three slides, for examples.\<close>

definition three_slides :: "Slide list" where
  "three_slides =
     [\<lparr>sl_id = ''desktop'', sl_title = ''Desktop'', caption = None, imageSrc = ''d.jpg'',
       sl_alt = ''Desktop''\<rparr>,
      \<lparr>sl_id = ''laptop'', sl_title = ''Laptop'', caption = None, imageSrc = ''l.jpg'',
       sl_alt = ''Laptop''\<rparr>,
      \<lparr>sl_id = ''security'', sl_title = ''Security'', caption = None, imageSrc = ''s.jpg'',
       sl_alt = ''Security''\<rparr>]"

text \<open>An example: three slides, the default autoplay, a \<open>setTimeout\<close> that returns.\<close>

definition demo_env :: env where
  "demo_env = \<lparr>slides_total = 3, autoplay = default_autoplay, setTimeout_error = None\<rparr>"

section \<open>The release rule and the start index, in the specification's words\<close>

text \<open>
  Stated from the specification, to be compared with the handlers above: what a release
  with deltas \<open>dx\<close> and \<open>dy\<close> commits.
\<close>

datatype release = CommitNext | CommitPrevious | SnapBack

definition spec_release :: "real \<Rightarrow> real \<Rightarrow> real \<Rightarrow> release" where
  "spec_release threshold dx dy =
     (if \<bar>dx\<bar> > \<bar>dy\<bar> \<and> \<bar>dx\<bar> > threshold \<and> dx < 0 then CommitNext
      else if \<bar>dx\<bar> > \<bar>dy\<bar> \<and> \<bar>dx\<bar> > threshold \<and> dx > 0 then CommitPrevious
      else SnapBack)"

text \<open>Stated from the specification: \<open>clamp(x, lo, hi)\<close>.\<close>

definition clamp_spec :: "int \<Rightarrow> int \<Rightarrow> int \<Rightarrow> int" where
  "clamp_spec x lo hi = max lo (min x hi)"

section \<open>Properties of navigation\<close>

lemma clampIndex_range: "0 < tot \<Longrightarrow> 0 \<le> clampIndex tot i \<and> clampIndex tot i < int tot"
  by (simp add: clampIndex_def)

lemma clampIndex_jsx_range:
  "0 < tot \<Longrightarrow> 0 \<le> clampIndex_jsx tot i \<and> clampIndex_jsx tot i < int tot"
  by (simp add: clampIndex_jsx_def)

text \<open>\<open>goTo\<close> and \<open>goTo_jsx\<close>, written out for the single run of the updater.\<close>

lemma goTo_unfold:
  "goTo tot index c s =
     (let nxt = clampIndex tot index;
          prv = activeIndex s;
          s' = (if prv \<noteq> nxt
                then logUIEvent ''carousel_slide_change'' NAVIGATE
                       [(''from'', MNum prv), (''to'', MNum nxt), (''cause'', MCause c)] s
                else s)
      in s'\<lparr>activeIndex := nxt\<rparr>)"
  by (simp add: goTo_def goTo_runs_def Let_def)

lemma goTo_jsx_unfold:
  "goTo_jsx tot uid nextIdx s =
     (let prv = activeIndex_jsx s;
          clamped = clampIndex_jsx tot nextIdx;
          s' = (if clamped \<noteq> prv then logSlideChange prv clamped tot uid s else s)
      in s'\<lparr>activeIndex_jsx := clamped\<rparr>)"
  by (simp add: goTo_jsx_def goTo_jsx_runs_def Let_def)

lemma activeIndex_goTo: "activeIndex (goTo tot i c s) = clampIndex tot i"
  by (simp add: goTo_unfold Let_def logUIEvent_def)

lemma activeIndex_goTo_jsx: "activeIndex_jsx (goTo_jsx tot uid i s) = clampIndex_jsx tot i"
  by (simp add: goTo_jsx_unfold Let_def logSlideChange_def)

lemma goTo_noop: "clampIndex tot i = activeIndex s \<Longrightarrow> goTo tot i c s = s"
  by (simp add: goTo_unfold Let_def)

lemma goTo_change:
  "clampIndex tot i \<noteq> activeIndex s \<Longrightarrow>
   goTo tot i c s =
     s\<lparr>activeIndex := clampIndex tot i,
       console := console s @
         [\<lparr>eventName = ''carousel_slide_change'', action = NAVIGATE, userId = ''anonymous'',
           timestamp = clock s,
           metadata = [(''from'', MNum (activeIndex s)), (''to'', MNum (clampIndex tot i)),
                       (''cause'', MCause c)]\<rparr>]\<rparr>"
  by (simp add: goTo_unfold Let_def logUIEvent_def)

lemma transitions_goTo_change:
  "clampIndex tot i \<noteq> activeIndex s \<Longrightarrow>
   transitions (console (goTo tot i c s)) =
     transitions (console s) @
       [[(''from'', MNum (activeIndex s)), (''to'', MNum (clampIndex tot i)),
         (''cause'', MCause c)]]"
  by (simp add: goTo_change transitions_def)

lemma console_goTo_change:
  "clampIndex tot i \<noteq> activeIndex s \<Longrightarrow>
   length (console (goTo tot i c s)) = Suc (length (console s))"
  by (simp add: goTo_change)

lemma goTo_jsx_noop: "clampIndex_jsx tot i = activeIndex_jsx s \<Longrightarrow> goTo_jsx tot uid i s = s"
  by (simp add: goTo_jsx_unfold Let_def)

lemma goTo_jsx_change:
  "clampIndex_jsx tot i \<noteq> activeIndex_jsx s \<Longrightarrow>
   console_jsx (goTo_jsx tot uid i s) =
     console_jsx s @
       [createAuditEvent ''INTERACT'' ''Carousel''
          [(''interaction'', MStr ''slide_change''), (''beforeIndex'', MNum (activeIndex_jsx s)),
           (''afterIndex'', MNum (clampIndex_jsx tot i)), (''totalSlides'', MNum (int tot))]
          uid (clock_jsx s)]"
  by (simp add: goTo_jsx_unfold Let_def logSlideChange_def)

lemma clampIndex_jsx_cases:
  "0 < tot \<Longrightarrow>
   clampIndex_jsx tot i = (if i < 0 then 0 else if int tot \<le> i then int tot - 1 else i)"
  by (simp add: clampIndex_jsx_def)

text \<open>Between \<open>-1\<close> and \<open>N\<close> the wrap of Carousel.tsx is the remainder modulo \<open>N\<close>.\<close>

lemma clampIndex_mod:
  assumes "0 < tot" and "- 1 \<le> i" and "i \<le> int tot"
  shows "clampIndex tot i = i mod int tot"
proof (cases "i = - 1")
  case True
  have "(- 1) mod int tot = int tot - 1"
    using assms(1) by (simp add: zmod_minus1)
  with True show ?thesis by (simp add: clampIndex_def)
next
  case False
  with assms show ?thesis by (auto simp add: clampIndex_def)
qed

lemma logUIEvent_funpow:
  "((logUIEvent name act md) ^^ k) s =
     s\<lparr>console := console s @
          replicate k \<lparr>eventName = name, action = act, userId = ''anonymous'',
                        timestamp = clock s, metadata = md\<rparr>\<rparr>"
proof (induction k)
  case 0
  show ?case by simp
next
  case (Suc k)
  then show ?case
    by (simp add: logUIEvent_def replicate_append_same)
qed

lemma logSlideChange_funpow:
  "((logSlideChange a b tot uid) ^^ k) s =
     s\<lparr>console_jsx := console_jsx s @
          replicate k
            (createAuditEvent ''INTERACT'' ''Carousel''
               [(''interaction'', MStr ''slide_change''), (''beforeIndex'', MNum a),
                (''afterIndex'', MNum b), (''totalSlides'', MNum (int tot))]
               uid (clock_jsx s))\<rparr>"
proof (induction k)
  case 0
  show ?case by simp
next
  case (Suc k)
  then show ?case
    by (simp add: logSlideChange_def replicate_append_same)
qed

lemma activeIndex_goTo_runs: "activeIndex (goTo_runs k tot i c s) = clampIndex tot i"
  by (simp add: goTo_runs_def Let_def logUIEvent_funpow)

lemma goTo_runs_noop: "clampIndex tot i = activeIndex s \<Longrightarrow> goTo_runs k tot i c s = s"
  by (simp add: goTo_runs_def Let_def)

lemma console_goTo_runs:
  "clampIndex tot i \<noteq> activeIndex s \<Longrightarrow>
   console (goTo_runs k tot i c s) =
     console s @
       replicate k
         \<lparr>eventName = ''carousel_slide_change'', action = NAVIGATE, userId = ''anonymous'',
           timestamp = clock s,
           metadata = [(''from'', MNum (activeIndex s)), (''to'', MNum (clampIndex tot i)),
                       (''cause'', MCause c)]\<rparr>"
  by (simp add: goTo_runs_def Let_def logUIEvent_funpow)

lemma transitions_append_replicate:
  "eventName ev = ''carousel_slide_change'' \<Longrightarrow>
   transitions (evs @ replicate k ev) = transitions evs @ replicate k (metadata ev)"
  by (induction k) (simp_all add: transitions_def replicate_append_same [symmetric]
      del: replicate.simps)

lemma transitions_goTo_runs:
  "clampIndex tot i \<noteq> activeIndex s \<Longrightarrow>
   transitions (console (goTo_runs k tot i c s)) =
     transitions (console s) @
       replicate k
         [(''from'', MNum (activeIndex s)), (''to'', MNum (clampIndex tot i)),
          (''cause'', MCause c)]"
  by (simp add: console_goTo_runs transitions_append_replicate)

lemma activeIndex_goTo_jsx_runs:
  "activeIndex_jsx (goTo_jsx_runs k tot uid i s) = clampIndex_jsx tot i"
  by (simp add: goTo_jsx_runs_def Let_def logSlideChange_funpow)

lemma goTo_jsx_runs_noop:
  "clampIndex_jsx tot i = activeIndex_jsx s \<Longrightarrow> goTo_jsx_runs k tot uid i s = s"
  by (simp add: goTo_jsx_runs_def Let_def)

lemma console_goTo_jsx_runs:
  "clampIndex_jsx tot i \<noteq> activeIndex_jsx s \<Longrightarrow>
   console_jsx (goTo_jsx_runs k tot uid i s) =
     console_jsx s @
       replicate k
         (createAuditEvent ''INTERACT'' ''Carousel''
            [(''interaction'', MStr ''slide_change''), (''beforeIndex'', MNum (activeIndex_jsx s)),
             (''afterIndex'', MNum (clampIndex_jsx tot i)), (''totalSlides'', MNum (int tot))]
            uid (clock_jsx s))"
  by (simp add: goTo_jsx_runs_def Let_def logSlideChange_funpow)

text \<open>
  C1 (as amended). For \<open>N > 0\<close> and every integer target, \<open>goTo\<close> of Carousel.tsx maps a
  negative target to \<open>N - 1\<close>, a target of \<open>N\<close> or more to \<open>0\<close>, and leaves a target in range
  as it is; this is the target modulo \<open>N\<close> for targets from \<open>-1\<close> to \<open>N\<close>. The result becomes
  the active index. When it differs from the current index the transition event
  \<open>{from, to, cause}\<close> is appended to the console once for each run of the state updater:
  exactly one event where React runs the updater once, and one more for every further
  run. When the result is the current index no event is emitted, however often the
  updater runs, and the state is returned unchanged. \<open>goTo\<close> of Carousel.jsx does not
  wrap: it clamps the target into \<open>[0, N-1]\<close>, and logs in the same way, once for each run
  of the updater on a change and never otherwise.
\<close>

theorem goTo_clamps_and_emits_per_run:
  assumes "0 < tot" and "0 < runs"
  shows "(i < 0 \<longrightarrow> clampIndex tot i = int tot - 1)
       \<and> (int tot \<le> i \<longrightarrow> clampIndex tot i = 0)
       \<and> (0 \<le> i \<and> i < int tot \<longrightarrow> clampIndex tot i = i)
       \<and> (- 1 \<le> i \<and> i \<le> int tot \<longrightarrow> clampIndex tot i = i mod int tot)
       \<and> activeIndex (goTo_runs runs tot i c s) = clampIndex tot i
       \<and> (clampIndex tot i \<noteq> activeIndex s \<longrightarrow>
            transitions (console (goTo_runs runs tot i c s)) =
              transitions (console s) @
                replicate runs
                  [(''from'', MNum (activeIndex s)), (''to'', MNum (clampIndex tot i)),
                   (''cause'', MCause c)]
            \<and> length (console (goTo_runs runs tot i c s)) = length (console s) + runs)
       \<and> (clampIndex tot i = activeIndex s \<longrightarrow> goTo_runs runs tot i c s = s)
       \<and> goTo tot i c s = goTo_runs 1 tot i c s
       \<and> activeIndex (goTo tot i c s) = clampIndex tot i
       \<and> (clampIndex tot i \<noteq> activeIndex s \<longrightarrow>
            transitions (console (goTo tot i c s)) =
              transitions (console s) @
                [[(''from'', MNum (activeIndex s)), (''to'', MNum (clampIndex tot i)),
                  (''cause'', MCause c)]]
            \<and> length (console (goTo tot i c s)) = Suc (length (console s)))
       \<and> (clampIndex tot i = activeIndex s \<longrightarrow> goTo tot i c s = s)
       \<and> clampIndex_jsx tot i = (if i < 0 then 0 else if int tot \<le> i then int tot - 1 else i)
       \<and> activeIndex_jsx (goTo_jsx_runs runs tot uid i j) = clampIndex_jsx tot i
       \<and> (clampIndex_jsx tot i \<noteq> activeIndex_jsx j \<longrightarrow>
            console_jsx (goTo_jsx_runs runs tot uid i j) =
              console_jsx j @
                replicate runs
                  (createAuditEvent ''INTERACT'' ''Carousel''
                     [(''interaction'', MStr ''slide_change''),
                      (''beforeIndex'', MNum (activeIndex_jsx j)),
                      (''afterIndex'', MNum (clampIndex_jsx tot i)),
                      (''totalSlides'', MNum (int tot))]
                     uid (clock_jsx j)))
       \<and> (clampIndex_jsx tot i = activeIndex_jsx j \<longrightarrow> goTo_jsx_runs runs tot uid i j = j)
       \<and> goTo_jsx tot uid i j = goTo_jsx_runs 1 tot uid i j
       \<and> activeIndex_jsx (goTo_jsx tot uid i j) = clampIndex_jsx tot i
       \<and> (clampIndex_jsx tot i \<noteq> activeIndex_jsx j \<longrightarrow>
            console_jsx (goTo_jsx tot uid i j) =
              console_jsx j @
                [createAuditEvent ''INTERACT'' ''Carousel''
                   [(''interaction'', MStr ''slide_change''),
                    (''beforeIndex'', MNum (activeIndex_jsx j)),
                    (''afterIndex'', MNum (clampIndex_jsx tot i)),
                    (''totalSlides'', MNum (int tot))]
                   uid (clock_jsx j)])
       \<and> (clampIndex_jsx tot i = activeIndex_jsx j \<longrightarrow> goTo_jsx tot uid i j = j)"
proof -
  have a: "i < 0 \<longrightarrow> clampIndex tot i = int tot - 1"
    and b: "int tot \<le> i \<longrightarrow> clampIndex tot i = 0"
    and c: "0 \<le> i \<and> i < int tot \<longrightarrow> clampIndex tot i = i"
    by (simp_all add: clampIndex_def)
  have d: "- 1 \<le> i \<and> i \<le> int tot \<longrightarrow> clampIndex tot i = i mod int tot"
    using assms(1) by (simp add: clampIndex_mod)
  have r1: "activeIndex (goTo_runs runs tot i c s) = clampIndex tot i"
    by (rule activeIndex_goTo_runs)
  have r2: "clampIndex tot i \<noteq> activeIndex s \<longrightarrow>
            transitions (console (goTo_runs runs tot i c s)) =
              transitions (console s) @
                replicate runs
                  [(''from'', MNum (activeIndex s)), (''to'', MNum (clampIndex tot i)),
                   (''cause'', MCause c)]
            \<and> length (console (goTo_runs runs tot i c s)) = length (console s) + runs"
  proof (intro impI conjI)
    assume ne: "clampIndex tot i \<noteq> activeIndex s"
    show "transitions (console (goTo_runs runs tot i c s)) =
            transitions (console s) @
              replicate runs
                [(''from'', MNum (activeIndex s)), (''to'', MNum (clampIndex tot i)),
                 (''cause'', MCause c)]"
      using ne by (rule transitions_goTo_runs)
    show "length (console (goTo_runs runs tot i c s)) = length (console s) + runs"
      using ne by (simp add: console_goTo_runs)
  qed
  have r3: "clampIndex tot i = activeIndex s \<longrightarrow> goTo_runs runs tot i c s = s"
    by (simp add: goTo_runs_noop)
  have r4: "goTo tot i c s = goTo_runs 1 tot i c s"
    by (simp add: goTo_def)
  have e: "clampIndex tot i \<noteq> activeIndex s \<longrightarrow>
            transitions (console (goTo tot i c s)) =
              transitions (console s) @
                [[(''from'', MNum (activeIndex s)), (''to'', MNum (clampIndex tot i)),
                  (''cause'', MCause c)]]
            \<and> length (console (goTo tot i c s)) = Suc (length (console s))"
    using transitions_goTo_change console_goTo_change by blast
  have f: "clampIndex tot i = activeIndex s \<longrightarrow> goTo tot i c s = s"
    by (simp add: goTo_noop)
  have g: "clampIndex_jsx tot i = (if i < 0 then 0 else if int tot \<le> i then int tot - 1 else i)"
    using assms(1) by (rule clampIndex_jsx_cases)
  have j1: "activeIndex_jsx (goTo_jsx_runs runs tot uid i j) = clampIndex_jsx tot i"
    by (rule activeIndex_goTo_jsx_runs)
  have j2: "clampIndex_jsx tot i \<noteq> activeIndex_jsx j \<longrightarrow>
            console_jsx (goTo_jsx_runs runs tot uid i j) =
              console_jsx j @
                replicate runs
                  (createAuditEvent ''INTERACT'' ''Carousel''
                     [(''interaction'', MStr ''slide_change''),
                      (''beforeIndex'', MNum (activeIndex_jsx j)),
                      (''afterIndex'', MNum (clampIndex_jsx tot i)),
                      (''totalSlides'', MNum (int tot))]
                     uid (clock_jsx j))"
    by (simp add: console_goTo_jsx_runs)
  have j3: "clampIndex_jsx tot i = activeIndex_jsx j \<longrightarrow> goTo_jsx_runs runs tot uid i j = j"
    by (simp add: goTo_jsx_runs_noop)
  have j4: "goTo_jsx tot uid i j = goTo_jsx_runs 1 tot uid i j"
    by (simp add: goTo_jsx_def)
  have h: "clampIndex_jsx tot i \<noteq> activeIndex_jsx j \<longrightarrow>
            console_jsx (goTo_jsx tot uid i j) =
              console_jsx j @
                [createAuditEvent ''INTERACT'' ''Carousel''
                   [(''interaction'', MStr ''slide_change''),
                    (''beforeIndex'', MNum (activeIndex_jsx j)),
                    (''afterIndex'', MNum (clampIndex_jsx tot i)),
                    (''totalSlides'', MNum (int tot))]
                   uid (clock_jsx j)]"
    by (simp add: goTo_jsx_change)
  have k: "clampIndex_jsx tot i = activeIndex_jsx j \<longrightarrow> goTo_jsx tot uid i j = j"
    by (simp add: goTo_jsx_noop)
  show ?thesis
    using a b c d r1 r2 r3 r4 e f g j1 j2 j3 j4 h k activeIndex_goTo activeIndex_goTo_jsx
    by blast
qed

theorem goTo_clamps_and_emits_per_run_witness:
  "0 < (3::nat) \<and> 0 < (2::nat)
   \<and> clampIndex 3 (- 1) = 2 \<and> clampIndex 3 3 = 0 \<and> clampIndex 3 5 = 0
   \<and> transitions (console (goTo 3 (- 1) Kbd (initial ''t''))) =
       [[(''from'', MNum 0), (''to'', MNum 2), (''cause'', MCause Kbd)]]
   \<and> transitions (console (goTo_runs 2 3 (- 1) Kbd (initial ''t''))) =
       [[(''from'', MNum 0), (''to'', MNum 2), (''cause'', MCause Kbd)],
        [(''from'', MNum 0), (''to'', MNum 2), (''cause'', MCause Kbd)]]
   \<and> console (goTo_runs 2 3 3 Dot (initial ''t'')) = []
   \<and> console (goTo 3 3 Dot (initial ''t'')) = []
   \<and> activeIndex_jsx (goTo_jsx 3 ''anonymous'' 5 (Carousel_jsx 3 0 ''t'')) = 2
   \<and> length (console_jsx (goTo_jsx_runs 2 3 ''anonymous'' 5 (Carousel_jsx 3 0 ''t''))) = 2"
  using
    goTo_clamps_and_emits_per_run
      [of 3 2 "- 1" Kbd "initial ''t''" "''anonymous''" "Carousel_jsx 3 0 ''t''"]
    goTo_clamps_and_emits_per_run
      [of 3 2 3 Dot "initial ''t''" "''anonymous''" "Carousel_jsx 3 0 ''t''"]
    goTo_clamps_and_emits_per_run
      [of 3 2 5 Dot "initial ''t''" "''anonymous''" "Carousel_jsx 3 0 ''t''"]
  by (simp add: initial_def Carousel_jsx_def transitions_def clampIndex_def clampIndex_jsx_def
      goTo_def goTo_jsx_def goTo_runs_def goTo_jsx_runs_def logUIEvent_def logSlideChange_def
      Let_def eval_nat_numeral)

text \<open>
  C1 as stated fails: with three slides, \<open>goTo(5)\<close> and \<open>goTo(-2)\<close> of Carousel.tsx do not
  land on \<open>5 mod 3\<close> and \<open>-2 mod 3\<close>, and \<open>goTo(3)\<close> of Carousel.jsx does not land on \<open>0\<close>.
\<close>

theorem goTo_wraps_modulo_counterexample:
  "activeIndex (goTo 3 5 Dot (initial ''t'')) \<noteq> 5 mod 3
   \<and> activeIndex (goTo 3 (- 2) Dot (initial ''t'')) \<noteq> (- 2) mod 3
   \<and> activeIndex_jsx (goTo_jsx 3 ''anonymous'' 3 (Carousel_jsx 3 0 ''t'')) \<noteq> 3 mod 3"
  by (simp add: activeIndex_goTo activeIndex_goTo_jsx clampIndex_def clampIndex_jsx_def)

lemma next_tsx_mod:
  "0 < tot \<Longrightarrow> 0 \<le> activeIndex s \<Longrightarrow> activeIndex s < int tot \<Longrightarrow>
   activeIndex (next_tsx tot c s) = (activeIndex s + 1) mod int tot"
  by (simp add: next_tsx_def activeIndex_goTo clampIndex_mod)

lemma next_times_mod:
  "0 < tot \<Longrightarrow> 0 \<le> activeIndex s \<Longrightarrow> activeIndex s < int tot \<Longrightarrow>
   activeIndex (next_times tot cs s) = (activeIndex s + int (length cs)) mod int tot"
proof (induction cs arbitrary: s)
  case Nil
  then show ?case by simp
next
  case (Cons c cs)
  have r: "0 \<le> activeIndex (next_tsx tot c s) \<and> activeIndex (next_tsx tot c s) < int tot"
    using Cons.prems by (simp add: next_tsx_def activeIndex_goTo clampIndex_range)
  have "activeIndex (next_times tot (c # cs) s) =
          (activeIndex (next_tsx tot c s) + int (length cs)) mod int tot"
    using Cons.IH[of "next_tsx tot c s"] Cons.prems r by simp
  also have "\<dots> = ((activeIndex s + 1) mod int tot + int (length cs)) mod int tot"
    using Cons.prems by (simp add: next_tsx_mod)
  also have "\<dots> = ((activeIndex s + 1) + int (length cs)) mod int tot"
    by (rule mod_add_left_eq)
  also have "\<dots> = (activeIndex s + int (length (c # cs))) mod int tot"
    by (simp add: ac_simps)
  finally show ?case .
qed

lemma next_jsx_sat:
  "0 < tot \<Longrightarrow> 0 \<le> activeIndex_jsx s \<Longrightarrow> activeIndex_jsx s < int tot \<Longrightarrow>
   activeIndex_jsx (next_jsx tot uid s) = min (activeIndex_jsx s + 1) (int tot - 1)"
  by (simp add: next_jsx_def activeIndex_goTo_jsx clampIndex_jsx_def)

lemma next_times_jsx_sat:
  "0 < tot \<Longrightarrow> 0 \<le> activeIndex_jsx s \<Longrightarrow> activeIndex_jsx s < int tot \<Longrightarrow>
   activeIndex_jsx (next_times_jsx tot uid k s) = min (activeIndex_jsx s + int k) (int tot - 1)"
proof (induction k arbitrary: s)
  case 0
  then show ?case by simp
next
  case (Suc k)
  let ?s = "next_jsx tot uid s"
  have v: "activeIndex_jsx ?s = min (activeIndex_jsx s + 1) (int tot - 1)"
    using Suc.prems by (rule next_jsx_sat)
  then have r: "0 \<le> activeIndex_jsx ?s" "activeIndex_jsx ?s < int tot"
    using Suc.prems by simp_all
  have "activeIndex_jsx (next_times_jsx tot uid (Suc k) s) =
          min (activeIndex_jsx ?s + int k) (int tot - 1)"
    using Suc.IH[OF Suc.prems(1) r] by simp
  then show ?case using v by simp
qed

text \<open>
  C2 (as amended). For \<open>N > 0\<close> and a starting index in \<open>[0, N-1]\<close>: in Carousel.tsx, \<open>N\<close>
  calls of \<open>next\<close> (whatever their causes) bring the active index back to where it started;
  in Carousel.jsx \<open>next\<close> stops at the last slide, so \<open>N\<close> calls end on index \<open>N - 1\<close>.
\<close>

theorem next_N_times:
  assumes "0 < tot"
    and "0 \<le> activeIndex s" and "activeIndex s < int tot" and "length cs = tot"
    and "0 \<le> activeIndex_jsx j" and "activeIndex_jsx j < int tot"
  shows "activeIndex (next_times tot cs s) = activeIndex s
       \<and> activeIndex_jsx (next_times_jsx tot uid tot j) = int tot - 1"
proof -
  have "activeIndex (next_times tot cs s) = (activeIndex s + int tot) mod int tot"
    using assms by (simp add: next_times_mod)
  then have t: "activeIndex (next_times tot cs s) = activeIndex s"
    using assms by simp
  have "activeIndex_jsx (next_times_jsx tot uid tot j) =
          min (activeIndex_jsx j + int tot) (int tot - 1)"
    using assms by (simp add: next_times_jsx_sat)
  then show ?thesis using t assms by simp
qed

theorem next_N_times_witness:
  "0 < (3::nat)
   \<and> 0 \<le> activeIndex ((initial ''t'')\<lparr>activeIndex := 1\<rparr>)
   \<and> activeIndex ((initial ''t'')\<lparr>activeIndex := 1\<rparr>) < 3
   \<and> length [Arrow, Kbd, Auto] = 3
   \<and> 0 \<le> activeIndex_jsx (Carousel_jsx 3 1 ''t'') \<and> activeIndex_jsx (Carousel_jsx 3 1 ''t'') < 3
   \<and> activeIndex (next_times 3 [Arrow, Kbd, Auto] ((initial ''t'')\<lparr>activeIndex := 1\<rparr>)) = 1
   \<and> activeIndex_jsx (next_times_jsx 3 ''anonymous'' 3 (Carousel_jsx 3 1 ''t'')) = 2"
  using next_N_times [of 3 "(initial ''t'')\<lparr>activeIndex := 1\<rparr>" "[Arrow, Kbd, Auto]"
      "Carousel_jsx 3 1 ''t''" "''anonymous''"]
  by (simp add: initial_def Carousel_jsx_def)

text \<open>
  C2 as stated fails on Carousel.jsx: with three slides and the first one active, three
  calls of \<open>next\<close> end on the last slide, not on the first.
\<close>

theorem next_N_times_cyclic_counterexample:
  "activeIndex_jsx (next_times_jsx 3 ''anonymous'' 3 (Carousel_jsx 3 0 ''t'')) \<noteq>
   activeIndex_jsx (Carousel_jsx 3 0 ''t'')"
  by (simp add: eval_nat_numeral next_jsx_def activeIndex_goTo_jsx clampIndex_jsx_def
      Carousel_jsx_def)

text \<open>
  C5. For \<open>N > 0\<close>, a starting index in \<open>[0, N-1]\<close> and every finite sequence of \<open>next\<close> and
  \<open>previous\<close> calls, the active index is in \<open>[0, N-1]\<close> after each call; this holds of both
  carousels.
\<close>

theorem activeIndex_stays_in_range:
  assumes "0 < tot"
  shows "(0 \<le> activeIndex s \<and> activeIndex s < int tot \<longrightarrow>
           (\<forall>s' \<in> set (run_nav tot ns s). 0 \<le> activeIndex s' \<and> activeIndex s' < int tot))
       \<and> (0 \<le> activeIndex_jsx j \<and> activeIndex_jsx j < int tot \<longrightarrow>
           (\<forall>j' \<in> set (run_nav_jsx tot uid ms j).
              0 \<le> activeIndex_jsx j' \<and> activeIndex_jsx j' < int tot))"
proof -
  have step: "0 \<le> activeIndex (nav_step tot n t) \<and> activeIndex (nav_step tot n t) < int tot"
    for n t
    using assms
    by (cases n) (simp_all add: next_tsx_def prev_tsx_def activeIndex_goTo clampIndex_range)
  have all: "\<forall>s' \<in> set (run_nav tot ns t). 0 \<le> activeIndex s' \<and> activeIndex s' < int tot"
    for t
    by (induction ns arbitrary: t) (simp_all add: Let_def step)
  have step_jsx: "0 \<le> activeIndex_jsx (nav_step_jsx tot uid m t)
                \<and> activeIndex_jsx (nav_step_jsx tot uid m t) < int tot"
    for m t
    using assms
    by (cases m)
      (simp_all add: next_jsx_def prev_jsx_def activeIndex_goTo_jsx clampIndex_jsx_range)
  have all_jsx: "\<forall>j' \<in> set (run_nav_jsx tot uid ms t).
                   0 \<le> activeIndex_jsx j' \<and> activeIndex_jsx j' < int tot"
    for t
    by (induction ms arbitrary: t) (simp_all add: Let_def step_jsx)
  show ?thesis using all all_jsx by blast
qed

theorem activeIndex_stays_in_range_witness:
  "0 < (3::nat)
   \<and> 0 \<le> activeIndex (initial ''t'') \<and> activeIndex (initial ''t'') < 3
   \<and> list_all (\<lambda>s'. 0 \<le> activeIndex s' \<and> activeIndex s' < 3)
       (run_nav 3 [Next Arrow, Next Arrow, Next Arrow, Previous Kbd] (initial ''t''))
   \<and> map activeIndex
       (run_nav 3 [Next Arrow, Next Arrow, Next Arrow, Previous Kbd] (initial ''t'')) = [1, 2, 0, 2]
   \<and> 0 \<le> activeIndex_jsx (Carousel_jsx 3 0 ''t'') \<and> activeIndex_jsx (Carousel_jsx 3 0 ''t'') < 3
   \<and> list_all (\<lambda>j'. 0 \<le> activeIndex_jsx j' \<and> activeIndex_jsx j' < 3)
       (run_nav_jsx 3 ''anonymous'' [Previous_jsx, Next_jsx, Next_jsx, Next_jsx]
          (Carousel_jsx 3 0 ''t''))
   \<and> map activeIndex_jsx
       (run_nav_jsx 3 ''anonymous'' [Previous_jsx, Next_jsx, Next_jsx, Next_jsx]
          (Carousel_jsx 3 0 ''t'')) = [0, 1, 2, 2]"
proof -
  have a: "map activeIndex
       (run_nav 3 [Next Arrow, Next Arrow, Next Arrow, Previous Kbd] (initial ''t'')) = [1, 2, 0, 2]"
    by (simp add: Let_def next_tsx_def prev_tsx_def activeIndex_goTo clampIndex_def initial_def)
  have b: "map activeIndex_jsx
       (run_nav_jsx 3 ''anonymous'' [Previous_jsx, Next_jsx, Next_jsx, Next_jsx]
          (Carousel_jsx 3 0 ''t'')) = [0, 1, 2, 2]"
    by (simp add: Let_def next_jsx_def prev_jsx_def activeIndex_goTo_jsx clampIndex_jsx_def
        Carousel_jsx_def)
  have c: "activeIndex (initial ''t'') = 0" "activeIndex_jsx (Carousel_jsx 3 0 ''t'') = 0"
    by (simp_all add: initial_def Carousel_jsx_def)
  show ?thesis
    using activeIndex_stays_in_range [of 3 "initial ''t''"
        "[Next Arrow, Next Arrow, Next Arrow, Previous Kbd]" "Carousel_jsx 3 0 ''t''"
        "''anonymous''" "[Previous_jsx, Next_jsx, Next_jsx, Next_jsx]"] a b c
    by (simp add: list_all_iff)
qed

section \<open>Properties of gestures\<close>

lemma onTouchEnd_release:
  assumes "tracking sw"
  shows "onTouchEnd tot cf threshold t (sw, s) =
     (sw\<lparr>tracking := False\<rparr>,
      handlers_onTouchEnd cf
        (case spec_release threshold (clientX t - touch_startX sw) (clientY t - touch_startY sw) of
           CommitNext \<Rightarrow> next_tsx tot Swipe s
         | CommitPrevious \<Rightarrow> prev_tsx tot Swipe s
         | SnapBack \<Rightarrow> s))"
  using assms by (auto simp add: onTouchEnd_def spec_release_def Let_def)

lemma drag_state:
  "pos (onPointerMove e1 (onPointerDown e0 s)) =
     (pos s)\<lparr>isDragging := True, startX := clientX e0, startTranslate := trackX s,
             currentX := clientX e1\<rparr>"
  "activeIndex_jsx (onPointerMove e1 (onPointerDown e0 s)) = activeIndex_jsx s"
  by (simp_all add: onPointerMove_def onPointerDown_def Let_def)

lemma activeIndex_align: "activeIndex_jsx (align w s) = activeIndex_jsx s"
  by (simp add: align_def)

lemma onPointerUp_index:
  assumes "isDragging (pos s)"
  shows "activeIndex_jsx (onPointerUp slideW tot uid s) =
     (let delta = currentX (pos s) - startX (pos s) in
      if delta < - 40 then activeIndex_jsx (next_jsx tot uid s)
      else if delta > 40 then activeIndex_jsx (prev_jsx tot uid s)
      else activeIndex_jsx s)"
  using assms
  by (auto simp add: onPointerUp_def Let_def activeIndex_align next_jsx_def prev_jsx_def
      activeIndex_goTo_jsx)

lemma onPointerUp_snap:
  assumes "isDragging (pos s)" and "\<bar>currentX (pos s) - startX (pos s)\<bar> \<le> 40"
  shows "trackX (onPointerUp slideW tot uid s) =
           - (real_of_int (activeIndex_jsx s) * (slideW + 32))"
    and "console_jsx (onPointerUp slideW tot uid s) = console_jsx s"
  using assms by (simp_all add: onPointerUp_def Let_def align_def)

text \<open>
  C3 (as amended). In Carousel.tsx (\<open>useSwipe\<close>), a release in the tracking state with
  deltas \<open>dx\<close> and \<open>dy\<close> commits \<open>next('swipe')\<close> when \<open>|dx| > |dy|\<close>, \<open>|dx| > threshold\<close> and
  \<open>dx < 0\<close>, commits \<open>previous('swipe')\<close> when \<open>|dx| > |dy|\<close>, \<open>|dx| > threshold\<close> and \<open>dx > 0\<close>,
  and navigates in no other case, a diagonal drag included; the touch-end handler of the
  carousel then runs and tracking ends. In Carousel.jsx, the release of a drag that was
  pressed at \<open>e0\<close> and last moved to \<open>e1\<close> looks at the horizontal delta alone, with a
  threshold of 40 pixels: it calls \<open>next\<close> below \<open>-40\<close> and \<open>prev\<close> above \<open>40\<close> whatever the
  vertical movement, and otherwise snaps the track back to the rest position of the
  active slide without logging.
\<close>

theorem release_commits:
  assumes "tracking sw"
  shows "onTouchEnd tot cf threshold t (sw, s) =
           (sw\<lparr>tracking := False\<rparr>,
            handlers_onTouchEnd cf
              (case spec_release threshold (clientX t - touch_startX sw)
                      (clientY t - touch_startY sw) of
                 CommitNext \<Rightarrow> next_tsx tot Swipe s
               | CommitPrevious \<Rightarrow> prev_tsx tot Swipe s
               | SnapBack \<Rightarrow> s))
       \<and> activeIndex_jsx (onPointerUp slideW tot uid (onPointerMove e1 (onPointerDown e0 j))) =
           (if clientX e1 - clientX e0 < - 40 then activeIndex_jsx (next_jsx tot uid j)
            else if clientX e1 - clientX e0 > 40 then activeIndex_jsx (prev_jsx tot uid j)
            else activeIndex_jsx j)
       \<and> (\<bar>clientX e1 - clientX e0\<bar> \<le> 40 \<longrightarrow>
            trackX (onPointerUp slideW tot uid (onPointerMove e1 (onPointerDown e0 j))) =
              - (real_of_int (activeIndex_jsx j) * (slideW + 32))
            \<and> console_jsx (onPointerUp slideW tot uid (onPointerMove e1 (onPointerDown e0 j))) =
                console_jsx j)"
proof -
  let ?d = "onPointerMove e1 (onPointerDown e0 j)"
  have dragging: "isDragging (pos ?d)"
    and delta: "currentX (pos ?d) - startX (pos ?d) = clientX e1 - clientX e0"
    and idx: "activeIndex_jsx ?d = activeIndex_jsx j"
    and con: "console_jsx ?d = console_jsx j"
    by (simp_all add: onPointerMove_def onPointerDown_def Let_def)
  have nx: "activeIndex_jsx (next_jsx tot uid ?d) = activeIndex_jsx (next_jsx tot uid j)"
    and pv: "activeIndex_jsx (prev_jsx tot uid ?d) = activeIndex_jsx (prev_jsx tot uid j)"
    by (simp_all add: next_jsx_def prev_jsx_def activeIndex_goTo_jsx idx)
  have a: "activeIndex_jsx (onPointerUp slideW tot uid ?d) =
           (if clientX e1 - clientX e0 < - 40 then activeIndex_jsx (next_jsx tot uid j)
            else if clientX e1 - clientX e0 > 40 then activeIndex_jsx (prev_jsx tot uid j)
            else activeIndex_jsx j)"
    using onPointerUp_index [OF dragging, of slideW tot uid]
    by (simp add: Let_def delta nx pv idx)
  have b: "\<bar>clientX e1 - clientX e0\<bar> \<le> 40 \<longrightarrow>
            trackX (onPointerUp slideW tot uid ?d) =
              - (real_of_int (activeIndex_jsx j) * (slideW + 32))
            \<and> console_jsx (onPointerUp slideW tot uid ?d) = console_jsx j"
    using onPointerUp_snap [OF dragging, of slideW tot uid] by (simp add: delta idx con)
  show ?thesis
    using onTouchEnd_release [OF assms, of tot cf threshold t s] a b by blast
qed

theorem release_commits_witness:
  "tracking \<lparr>touch_startX = 100, touch_startY = 10, tracking = True\<rparr>
   \<and> activeIndex (snd (onTouchEnd 3 (cfg_of default_autoplay False) 40
        \<lparr>clientX = 50, clientY = 10\<rparr>
        (\<lparr>touch_startX = 100, touch_startY = 10, tracking = True\<rparr>, initial ''t''))) = 1
   \<and> activeIndex (snd (onTouchEnd 3 (cfg_of default_autoplay False) 40
        \<lparr>clientX = 120, clientY = 10\<rparr>
        (\<lparr>touch_startX = 100, touch_startY = 10, tracking = True\<rparr>, initial ''t''))) = 0
   \<and> activeIndex (snd (onTouchEnd 3 (cfg_of default_autoplay False) default_threshold
        \<lparr>clientX = 130, clientY = 45\<rparr>
        (\<lparr>touch_startX = 100, touch_startY = 10, tracking = True\<rparr>, initial ''t''))) = 0
   \<and> activeIndex_jsx (onPointerUp 300 3 ''anonymous''
        (onPointerMove \<lparr>clientX = 120, clientY = 0\<rparr>
          (onPointerDown \<lparr>clientX = 100, clientY = 0\<rparr> (Carousel_jsx 3 1 ''t'')))) = 1
   \<and> trackX (onPointerUp 300 3 ''anonymous''
        (onPointerMove \<lparr>clientX = 120, clientY = 0\<rparr>
          (onPointerDown \<lparr>clientX = 100, clientY = 0\<rparr> (Carousel_jsx 3 1 ''t'')))) = - 332"
  using
    release_commits [of "\<lparr>touch_startX = 100, touch_startY = 10, tracking = True\<rparr>" 3
      "cfg_of default_autoplay False" 40 "\<lparr>clientX = 50, clientY = 10\<rparr>" "initial ''t''"
      300 "''anonymous''" "\<lparr>clientX = 120, clientY = 0\<rparr>" "\<lparr>clientX = 100, clientY = 0\<rparr>"
      "Carousel_jsx 3 1 ''t''"]
    release_commits [of "\<lparr>touch_startX = 100, touch_startY = 10, tracking = True\<rparr>" 3
      "cfg_of default_autoplay False" 40 "\<lparr>clientX = 120, clientY = 10\<rparr>" "initial ''t''"
      300 "''anonymous''" "\<lparr>clientX = 120, clientY = 0\<rparr>" "\<lparr>clientX = 100, clientY = 0\<rparr>"
      "Carousel_jsx 3 1 ''t''"]
    release_commits [of "\<lparr>touch_startX = 100, touch_startY = 10, tracking = True\<rparr>" 3
      "cfg_of default_autoplay False" default_threshold "\<lparr>clientX = 130, clientY = 45\<rparr>"
      "initial ''t''"
      300 "''anonymous''" "\<lparr>clientX = 120, clientY = 0\<rparr>" "\<lparr>clientX = 100, clientY = 0\<rparr>"
      "Carousel_jsx 3 1 ''t''"]
  by (simp add: spec_release_def default_threshold_def handlers_onTouchEnd_def cfg_of_def
      default_autoplay_def logUIEvent_def next_tsx_def activeIndex_goTo clampIndex_def
      initial_def Carousel_jsx_def)

text \<open>
  C3 as stated fails on Carousel.jsx: a perfectly diagonal drag of 50 pixels right and 50
  pixels down, from the second of three slides, is a snap-back by the rule of the claim,
  yet the release moves to the first slide.
\<close>

theorem release_diagonal_counterexample:
  "spec_release 40 (150 - 100) (150 - 100) = SnapBack
   \<and> activeIndex_jsx (onPointerUp 300 3 ''anonymous''
        (onPointerMove \<lparr>clientX = 150, clientY = 150\<rparr>
          (onPointerDown \<lparr>clientX = 100, clientY = 100\<rparr> (Carousel_jsx 3 1 ''t'')))) \<noteq>
      activeIndex_jsx (Carousel_jsx 3 1 ''t'')"
  by (simp add: spec_release_def onPointerUp_index drag_state Let_def prev_jsx_def
      activeIndex_goTo_jsx clampIndex_jsx_def Carousel_jsx_def)

section \<open>Properties of image failures\<close>

lemma error_events_onImageError:
  "error_events (console (onImageError sid s)) =
     error_events (console s) @
       [\<lparr>eventName = ''carousel_image_error'', action = ERROR, userId = ''anonymous'',
         timestamp = clock s, metadata = [(''slideId'', MStr sid)]\<rparr>]"
  by (simp add: onImageError_def logUIEvent_def error_events_def)

section \<open>Properties of construction\<close>

text \<open>
  C6. Construction of Carousel.tsx fails when the slide collection is empty, and when
  autoplay is enabled with an interval that is zero or negative (the thrown value is an
  \<open>Error\<close> carrying the message of the configuration fault). For a collection that is not
  empty, \<open>goTo\<close> and the dot handler take every integer index and tolerate one out of
  range by wrapping around: an index below \<open>0\<close> lands on the last slide \<open>N - 1\<close>, an index
  of \<open>N\<close> or more lands on the first slide \<open>0\<close>, an index in range is kept, so the active
  index is always in \<open>[0, N-1]\<close>; \<open>next\<close> on the last slide goes to the first and
  \<open>previous\<close> on the first goes to the last.
\<close>

theorem construction_rejects_invalid_configuration:
  "Carousel [] ap now = Inl (Error msg_slides_required)
   \<and> (enabled a = Some True \<and> intervalMs a = Some ms \<and> ms \<le> 0 \<and> slides \<noteq> [] \<longrightarrow>
        Carousel slides (Some a) now = Inl (Error msg_interval_positive))
   \<and> (enabled a = Some True \<and> intervalMs a = Some ms \<and> ms \<le> 0 \<longrightarrow>
        isl (Carousel slides (Some a) now))
   \<and> (slides \<noteq> [] \<longrightarrow>
        0 \<le> activeIndex (goTo (length slides) i c s)
        \<and> activeIndex (goTo (length slides) i c s) < int (length slides)
        \<and> 0 \<le> activeIndex (click_dot (length slides) k s)
        \<and> activeIndex (click_dot (length slides) k s) < int (length slides))
   \<and> (slides \<noteq> [] \<longrightarrow>
        activeIndex (goTo (length slides) i c s) =
          (if i < 0 then int (length slides) - 1
           else if int (length slides) \<le> i then 0
           else i)
        \<and> activeIndex (click_dot (length slides) k s) = (if k < length slides then int k else 0))
   \<and> (slides \<noteq> [] \<and> activeIndex s = int (length slides) - 1 \<longrightarrow>
        activeIndex (next_tsx (length slides) c s) = 0)
   \<and> (slides \<noteq> [] \<and> activeIndex s = 0 \<longrightarrow>
        activeIndex (prev_tsx (length slides) c s) = int (length slides) - 1)"
proof -
  have a: "Carousel [] ap now = Inl (Error msg_slides_required)"
    by (simp add: Carousel_def Let_def)
  have b: "enabled a = Some True \<and> intervalMs a = Some ms \<and> ms \<le> 0 \<and> slides \<noteq> [] \<longrightarrow>
        Carousel slides (Some a) now = Inl (Error msg_interval_positive)"
    by (simp add: Carousel_def Let_def)
  have c: "enabled a = Some True \<and> intervalMs a = Some ms \<and> ms \<le> 0 \<longrightarrow>
        isl (Carousel slides (Some a) now)"
    by (simp add: Carousel_def Let_def)
  have d: "slides \<noteq> [] \<longrightarrow>
        0 \<le> activeIndex (goTo (length slides) i c s)
        \<and> activeIndex (goTo (length slides) i c s) < int (length slides)
        \<and> 0 \<le> activeIndex (click_dot (length slides) k s)
        \<and> activeIndex (click_dot (length slides) k s) < int (length slides)"
    by (simp add: click_dot_def logUIEvent_def activeIndex_goTo clampIndex_def)
  have e: "slides \<noteq> [] \<longrightarrow>
        activeIndex (goTo (length slides) i c s) =
          (if i < 0 then int (length slides) - 1
           else if int (length slides) \<le> i then 0
           else i)
        \<and> activeIndex (click_dot (length slides) k s) = (if k < length slides then int k else 0)"
    by (simp add: click_dot_def logUIEvent_def activeIndex_goTo clampIndex_def)
  have f: "slides \<noteq> [] \<and> activeIndex s = int (length slides) - 1 \<longrightarrow>
        activeIndex (next_tsx (length slides) c s) = 0"
    by (simp add: next_tsx_def activeIndex_goTo clampIndex_def)
  have g: "slides \<noteq> [] \<and> activeIndex s = 0 \<longrightarrow>
        activeIndex (prev_tsx (length slides) c s) = int (length slides) - 1"
    by (simp add: prev_tsx_def activeIndex_goTo clampIndex_def)
  show ?thesis using a b c d e f g by blast
qed

theorem construction_rejects_invalid_configuration_witness:
  "Carousel [] None ''t'' = Inl (Error msg_slides_required)
   \<and> Carousel three_slides (Some \<lparr>enabled = Some True, intervalMs = Some (- 5)\<rparr>) ''t'' =
       Inl (Error msg_interval_positive)
   \<and> activeIndex (goTo (length three_slides) (- 1) Dot ((initial ''t'')\<lparr>activeIndex := 1\<rparr>)) = 2
   \<and> activeIndex (goTo (length three_slides) (- 4) Dot ((initial ''t'')\<lparr>activeIndex := 1\<rparr>)) = 2
   \<and> activeIndex (goTo (length three_slides) 3 Dot ((initial ''t'')\<lparr>activeIndex := 1\<rparr>)) = 0
   \<and> activeIndex (goTo (length three_slides) 7 Dot ((initial ''t'')\<lparr>activeIndex := 1\<rparr>)) = 0
   \<and> activeIndex (goTo (length three_slides) 2 Dot ((initial ''t'')\<lparr>activeIndex := 1\<rparr>)) = 2
   \<and> activeIndex (next_tsx (length three_slides) Arrow ((initial ''t'')\<lparr>activeIndex := 2\<rparr>)) = 0
   \<and> activeIndex (prev_tsx (length three_slides) Arrow (initial ''t'')) = 2"
proof -
  have len: "length three_slides = 3" and ne: "three_slides \<noteq> []"
    by (simp_all add: three_slides_def)
  have idx: "activeIndex ((initial ''t'')\<lparr>activeIndex := 2\<rparr>) = int (length three_slides) - 1"
    "activeIndex (initial ''t'') = 0"
    by (simp_all add: len initial_def)
  note t = construction_rejects_invalid_configuration
    [where a = "\<lparr>enabled = Some True, intervalMs = Some (- 5)\<rparr>" and ms = "- 5"
       and slides = three_slides and ap = None and now = "''t''"]
  have a: "Carousel [] None ''t'' = Inl (Error msg_slides_required)"
    using t by blast
  have b: "Carousel three_slides (Some \<lparr>enabled = Some True, intervalMs = Some (- 5)\<rparr>) ''t'' =
             Inl (Error msg_interval_positive)"
    using t [of 0 Dot "initial ''t''" 0] ne by simp
  have g: "activeIndex (goTo (length three_slides) i Dot ((initial ''t'')\<lparr>activeIndex := 1\<rparr>)) =
             (if i < 0 then 2 else if 3 \<le> i then 0 else i)" for i
    using t [of i Dot "(initial ''t'')\<lparr>activeIndex := 1\<rparr>" 0] ne by (simp add: len)
  have n: "activeIndex (next_tsx (length three_slides) Arrow ((initial ''t'')\<lparr>activeIndex := 2\<rparr>)) = 0"
    using t [of 0 Arrow "(initial ''t'')\<lparr>activeIndex := 2\<rparr>" 0] ne idx(1) by blast
  have p: "activeIndex (prev_tsx (length three_slides) Arrow (initial ''t'')) = 2"
    using t [of 0 Arrow "initial ''t''" 0] ne idx(2) by (simp add: len)
  show ?thesis
    using a b g [of "- 1"] g [of "- 4"] g [of 3] g [of 7] g [of 2] n p by simp
qed

text \<open>
  C7 (as amended). For \<open>N > 0\<close>, the initial active index of Carousel.jsx is the requested
  start index when that lies in \<open>[0, N-1]\<close> and \<open>0\<close> otherwise; it is in range, and it is
  \<open>clamp(requestedStartIndex, 0, N-1)\<close> for every requested index below \<open>N\<close>.
\<close>

theorem initial_index_in_range_or_zero:
  assumes "0 < tot"
  shows "activeIndex_jsx (Carousel_jsx tot i now) = (if 0 \<le> i \<and> i < int tot then i else 0)
       \<and> 0 \<le> activeIndex_jsx (Carousel_jsx tot i now)
       \<and> activeIndex_jsx (Carousel_jsx tot i now) < int tot
       \<and> (i < int tot \<longrightarrow>
            activeIndex_jsx (Carousel_jsx tot i now) = clamp_spec i 0 (int tot - 1))"
  using assms by (simp add: Carousel_jsx_def clamp_spec_def)

theorem initial_index_in_range_or_zero_witness:
  "0 < (3::nat)
   \<and> activeIndex_jsx (Carousel_jsx 3 2 ''t'') = 2
   \<and> activeIndex_jsx (Carousel_jsx 3 (- 4) ''t'') = clamp_spec (- 4) 0 (3 - 1)
   \<and> activeIndex_jsx (Carousel_jsx 3 5 ''t'') = 0"
  using initial_index_in_range_or_zero [of 3 2 "''t''"]
    initial_index_in_range_or_zero [of 3 "- 4" "''t''"]
    initial_index_in_range_or_zero [of 3 5 "''t''"]
  by simp

text \<open>
  C7 as stated fails: with three slides and a requested start index of 5 the carousel
  starts on the first slide, while \<open>clamp(5, 0, 2)\<close> is the last.
\<close>

theorem initial_index_clamp_counterexample:
  "activeIndex_jsx (Carousel_jsx 3 5 ''t'') \<noteq> clamp_spec 5 0 (3 - 1)"
  by (simp add: Carousel_jsx_def clamp_spec_def)

section \<open>Properties of the sanitizer\<close>

lemma trim_nonempty_imp: "trim s \<noteq> [] \<Longrightarrow> s \<noteq> []"
  by (auto simp: trim_def)

lemma trimmed_or_nonempty: "d \<noteq> [] \<Longrightarrow> trimmed_or v d \<noteq> []"
  by (cases v) (simp_all add: trimmed_or_def)

lemma decimal_nonempty: "decimal n \<noteq> []"
  by (subst decimal.simps) simp

lemma sanitize_id: "cs_id (sanitize s i) \<noteq> []"
  by (cases "get_prop s ''id''") (auto simp add: sanitize_def Let_def dest: trim_nonempty_imp)

lemma sanitize_title: "cs_title (sanitize s i) \<noteq> []"
  by (simp add: sanitize_def Let_def trimmed_or_nonempty)

lemma sanitize_description: "cs_description (sanitize s i) \<noteq> []"
  by (simp add: sanitize_def Let_def trimmed_or_nonempty)

lemma sanitize_image: "cs_image (sanitize s i) \<noteq> []"
  by (simp add: sanitize_def Let_def trimmed_or_nonempty)

lemma sanitize_alt: "cs_alt (sanitize s i) \<noteq> []"
  by (simp add: sanitize_def Let_def trimmed_or_nonempty)

lemma length_map_idx: "length (map_idx f i xs) = length xs"
  by (induction xs arbitrary: i) auto

lemma filled_sanitize: "filled (sanitize s i)"
  by (simp add: filled_def sanitize_id sanitize_title sanitize_description sanitize_image
      sanitize_alt)

lemma filled_map_idx: "sl \<in> set (map_idx sanitize i xs) \<Longrightarrow> filled sl"
  by (induction xs arbitrary: i) (auto simp add: filled_sanitize)

lemma filled_fallback: "filled fallback"
  by (simp add: filled_def fallback_def)

lemma dropWhile_all: "(\<forall>ch \<in> set (dropWhile P xs). P ch) = (\<forall>ch \<in> set xs. P ch)"
proof
  assume all: "\<forall>ch \<in> set (dropWhile P xs). P ch"
  have "dropWhile P xs = []"
  proof (rule ccontr)
    assume ne: "dropWhile P xs \<noteq> []"
    then have "hd (dropWhile P xs) \<in> set (dropWhile P xs)" by (rule hd_in_set)
    with all have "P (hd (dropWhile P xs))" by blast
    with hd_dropWhile [OF ne] show False by blast
  qed
  then show "\<forall>ch \<in> set xs. P ch" by (simp only: dropWhile_eq_Nil_conv)
next
  assume "\<forall>ch \<in> set xs. P ch"
  then show "\<forall>ch \<in> set (dropWhile P xs). P ch"
    using set_dropWhileD by fastforce
qed

lemma trim_empty_iff: "(trim str = []) = (\<forall>ch \<in> set str. is_ws ch)"
proof -
  have "(trim str = []) = (\<forall>ch \<in> set (dropWhile is_ws str). is_ws ch)"
    by (simp add: trim_def)
  then show ?thesis by (simp only: dropWhile_all)
qed

lemma dropWhile_trim:
  "dropWhile is_ws str = trim str @ rev (takeWhile is_ws (rev (dropWhile is_ws str)))"
proof -
  let ?d = "dropWhile is_ws str"
  have "trim str @ rev (takeWhile is_ws (rev ?d)) =
          rev (takeWhile is_ws (rev ?d) @ dropWhile is_ws (rev ?d))"
    by (simp only: trim_def rev_append)
  also have "\<dots> = rev (rev ?d)"
    by (simp only: takeWhile_dropWhile_id)
  also have "\<dots> = ?d"
    by (rule rev_rev_ident)
  finally show ?thesis by (rule sym)
qed

lemma trim_decompose:
  "str = takeWhile is_ws str @ trim str @ rev (takeWhile is_ws (rev (dropWhile is_ws str)))"
proof -
  have "str = takeWhile is_ws str @ dropWhile is_ws str"
    by (simp only: takeWhile_dropWhile_id)
  also have "\<dots> = takeWhile is_ws str @ trim str @ rev (takeWhile is_ws (rev (dropWhile is_ws str)))"
    using dropWhile_trim [of str] by (rule arg_cong)
  finally show ?thesis .
qed

lemma trim_surrounded:
  "\<exists>pre post. str = pre @ trim str @ post
     \<and> (\<forall>ch \<in> set pre. is_ws ch) \<and> (\<forall>ch \<in> set post. is_ws ch)"
proof (intro exI conjI)
  show "str = takeWhile is_ws str @ trim str @ rev (takeWhile is_ws (rev (dropWhile is_ws str)))"
    by (rule trim_decompose)
  show "\<forall>ch \<in> set (takeWhile is_ws str). is_ws ch"
    using set_takeWhileD by fastforce
  show "\<forall>ch \<in> set (rev (takeWhile is_ws (rev (dropWhile is_ws str)))). is_ws ch"
    using set_takeWhileD by fastforce
qed

lemma trim_ends:
  assumes "trim str \<noteq> []"
  shows "\<not> is_ws (hd (trim str))" and "\<not> is_ws (last (trim str))"
proof -
  let ?d = "dropWhile is_ws str"
  let ?e = "dropWhile is_ws (rev ?d)"
  from assms have e: "?e \<noteq> []" by (simp add: trim_def)
  have d: "?d \<noteq> []"
  proof
    assume z: "?d = []"
    have "?e = []" unfolding z by simp
    with e show False by contradiction
  qed
  have "trim str = rev ?e" by (simp only: trim_def)
  then have "last (trim str) = hd ?e"
    using e by (simp only: last_rev)
  then show "\<not> is_ws (last (trim str))"
    using hd_dropWhile [OF e] by simp
  have "hd ?d = hd (trim str @ rev (takeWhile is_ws (rev ?d)))"
    using dropWhile_trim [of str] by (rule arg_cong)
  also have "\<dots> = hd (trim str)"
    using assms by (rule hd_append2)
  finally have "hd ?d = hd (trim str)" .
  then show "\<not> is_ws (hd (trim str))"
    using hd_dropWhile [OF d] by simp
qed

lemma digit_value: "d < 10 \<Longrightarrow> of_char (digit d) = d + (48::nat)"
  by (simp add: digit_def)

lemma decimal_value:
  "foldl (\<lambda>acc ch. 10 * acc + (of_char ch - 48)) 0 (decimal n) = n"
proof (induction n rule: decimal.induct)
  case (1 idx)
  show ?case
  proof (cases "10 \<le> idx")
    case True
    have "idx mod 10 < 10" by simp
    then have dv: "of_char (digit (idx mod 10)) - (48::nat) = idx mod 10"
      by (simp add: digit_value)
    have "foldl (\<lambda>acc ch. 10 * acc + (of_char ch - 48)) 0 (decimal idx) =
            10 * (idx div 10) + idx mod 10"
      using True 1 [OF True] dv by (subst decimal.simps) simp
    then show ?thesis by simp
  next
    case False
    then have "idx < 10" by simp
    then have "of_char (digit idx) - (48::nat) = idx" by (simp add: digit_value)
    with False show ?thesis by (subst decimal.simps) simp
  qed
qed

lemma decimal_digits: "\<forall>ch \<in> set (decimal n). 48 \<le> (of_char ch :: nat) \<and> (of_char ch :: nat) \<le> 57"
proof (induction n rule: decimal.induct)
  case (1 idx)
  show ?case
  proof (cases "10 \<le> idx")
    case True
    have "idx mod 10 < 10" by simp
    then have "of_char (digit (idx mod 10)) = idx mod 10 + (48::nat)" by (rule digit_value)
    moreover have "idx mod 10 \<le> 9" by simp
    ultimately have "48 \<le> (of_char (digit (idx mod 10)) :: nat) \<and> (of_char (digit (idx mod 10)) :: nat) \<le> 57"
      by simp
    with True 1 [OF True] show ?thesis by (subst decimal.simps) simp
  next
    case False
    then have "of_char (digit idx) = idx + (48::nat)" by (simp add: digit_value)
    with False show ?thesis by (subst decimal.simps) simp
  qed
qed

lemma decimal_no_leading_zero: "0 < n \<Longrightarrow> hd (decimal n) \<noteq> CHR ''0''"
proof (induction n rule: decimal.induct)
  case (1 idx)
  show ?case
  proof (cases "10 \<le> idx")
    case True
    then have "0 < idx div 10" by simp
    from 1(1) [OF True this] have "hd (decimal (idx div 10)) \<noteq> CHR ''0''" .
    moreover have "decimal (idx div 10) \<noteq> []" by (rule decimal_nonempty)
    ultimately show ?thesis using True by (subst decimal.simps) simp
  next
    case False
    with 1(2) have "0 < idx" "idx < 10" by simp_all
    then have "of_char (digit idx) = idx + (48::nat)" by (simp add: digit_value)
    then have "digit idx \<noteq> CHR ''0''" using \<open>0 < idx\<close> by auto
    with False show ?thesis by (subst decimal.simps) simp
  qed
qed

lemma nth_map_idx: "k < length xs \<Longrightarrow> map_idx f i xs ! k = f (xs ! k) (i + k)"
proof (induction xs arbitrary: i k)
  case Nil
  then show ?case by simp
next
  case (Cons x xs)
  then show ?case by (cases k) simp_all
qed

lemma trimmed_or_kept: "trim str \<noteq> [] \<Longrightarrow> trimmed_or (JStr str) d = trim str"
  by (simp add: trimmed_or_def)

lemma trimmed_or_default:
  "(\<forall>str. v = JStr str \<longrightarrow> trim str = []) \<Longrightarrow> trimmed_or v d = d"
  by (cases v) (simp_all add: trimmed_or_def)

lemma sanitize_fields:
  "cs_title (sanitize s k) = trimmed_or (get_prop s ''title'') ''Untitled''"
  "cs_description (sanitize s k) = trimmed_or (get_prop s ''description'') ''No description provided.''"
  "cs_image (sanitize s k) = trimmed_or (get_prop s ''image'') ''/images/placeholder.jpg''"
  "cs_alt (sanitize s k) = trimmed_or (get_prop s ''alt'') (cs_title (sanitize s k) @ '' image'')"
  by (simp_all add: sanitize_def Let_def)

lemma sanitize_id_kept:
  "get_prop s ''id'' = JStr str \<Longrightarrow> trim str \<noteq> [] \<Longrightarrow> cs_id (sanitize s k) = str"
  by (simp add: sanitize_def Let_def)

lemma sanitize_id_default:
  "(\<forall>str. get_prop s ''id'' = JStr str \<longrightarrow> trim str = []) \<Longrightarrow>
   cs_id (sanitize s k) = ''slide-'' @ decimal k"
  by (cases "get_prop s ''id''") (simp_all add: sanitize_def Let_def)


lemma field_default:
  assumes "\<forall>v. map_of kvs f = Some (JStr v) \<longrightarrow> trim v = []"
  shows "trimmed_or (get_prop (JObj kvs) f) d = d"
proof (cases "map_of kvs f")
  case None
  then show ?thesis by (simp add: trimmed_or_def)
next
  case (Some v)
  with assms have "\<forall>str. v = JStr str \<longrightarrow> trim str = []" by simp
  then have "trimmed_or v d = d" by (rule trimmed_or_default)
  with Some show ?thesis by simp
qed

lemma object_id_kept:
  "map_of kvs ''id'' = Some (JStr str) \<Longrightarrow> trim str \<noteq> [] \<Longrightarrow>
   cs_id (sanitize (JObj kvs) k) = str"
  by (simp add: sanitize_id_kept)

lemma object_id_default:
  assumes "\<forall>v. map_of kvs ''id'' = Some (JStr v) \<longrightarrow> trim v = []"
  shows "cs_id (sanitize (JObj kvs) k) = ''slide-'' @ decimal k"
proof (rule sanitize_id_default, intro allI impI)
  fix str
  assume g: "get_prop (JObj kvs) ''id'' = JStr str"
  then have "map_of kvs ''id'' = Some (JStr str)"
    by (cases "map_of kvs ''id''") simp_all
  with assms show "trim str = []" by simp
qed

lemma sanitize_array:
  "sanitize (JArr ys) k =
     \<lparr>cs_id = ''slide-'' @ decimal k, cs_title = ''Untitled'',
      cs_description = ''No description provided.'', cs_image = ''/images/placeholder.jpg'',
      cs_alt = ''Untitled image''\<rparr>"
  by (simp add: sanitize_def trimmed_or_def Let_def)

lemma nth_validateSlides:
  "k < length (filter is_object xs) \<Longrightarrow>
   validateSlides (JArr xs) ! k = sanitize (filter is_object xs ! k) k"
  by (simp add: validateSlides_def nth_map_idx)

text \<open>
  C10. \<open>validateSlides\<close> of the empty array is the empty array, so the sanitizer does not
  guarantee a collection that is not empty; the single fallback slide is the answer for
  every input that is not an array. For an array, the elements that are not objects are
  dropped (the result has one slide for each element that is an object, in order, and is
  the result for the array of those elements alone), and every slide of every result has
  \<open>id\<close>, \<open>title\<close>, \<open>description\<close>, \<open>image\<close> and \<open>alt\<close> that are not empty. The slide made
  from an object keeps each supplied \<open>title\<close>, \<open>description\<close>, \<open>image\<close> and \<open>alt\<close> that is
  a string with something other than white space in it, trimmed, and keeps such an \<open>id\<close>
  as it is; a field that is missing, not a string or blank gets its default: \<open>slide-k\<close>
  with the position \<open>k\<close> among the kept elements in decimal, \<open>Untitled\<close>,
  \<open>No description provided.\<close>, the placeholder image, and the title followed by
  \<open> image\<close>. An element that is an array gets every default. Trimming removes exactly
  the white space at both ends. Every element that is neither an object nor an array
  is dropped wherever it stands, and an object or an array is kept.
\<close>

theorem validateSlides_sanitizes:
  "validateSlides (JArr []) = []
   \<and> (\<not> is_array items \<longrightarrow> validateSlides items = [fallback])
   \<and> length (validateSlides (JArr xs)) = length (filter is_object xs)
   \<and> validateSlides (JArr xs) = validateSlides (JArr (filter is_object xs))
   \<and> (\<forall>sl \<in> set (validateSlides items).
         cs_id sl \<noteq> [] \<and> cs_title sl \<noteq> [] \<and> cs_description sl \<noteq> []
         \<and> cs_image sl \<noteq> [] \<and> cs_alt sl \<noteq> [])
   \<and> (k < length (filter is_object xs) \<longrightarrow>
        validateSlides (JArr xs) ! k = sanitize (filter is_object xs ! k) k)
   \<and> (map_of kvs ''id'' = Some (JStr str) \<and> trim str \<noteq> [] \<longrightarrow>
        cs_id (sanitize (JObj kvs) k) = str)
   \<and> ((\<forall>v. map_of kvs ''id'' = Some (JStr v) \<longrightarrow> trim v = []) \<longrightarrow>
        cs_id (sanitize (JObj kvs) k) = ''slide-'' @ decimal k)
   \<and> (map_of kvs ''title'' = Some (JStr str) \<and> trim str \<noteq> [] \<longrightarrow>
        cs_title (sanitize (JObj kvs) k) = trim str)
   \<and> ((\<forall>v. map_of kvs ''title'' = Some (JStr v) \<longrightarrow> trim v = []) \<longrightarrow>
        cs_title (sanitize (JObj kvs) k) = ''Untitled'')
   \<and> (map_of kvs ''description'' = Some (JStr str) \<and> trim str \<noteq> [] \<longrightarrow>
        cs_description (sanitize (JObj kvs) k) = trim str)
   \<and> ((\<forall>v. map_of kvs ''description'' = Some (JStr v) \<longrightarrow> trim v = []) \<longrightarrow>
        cs_description (sanitize (JObj kvs) k) = ''No description provided.'')
   \<and> (map_of kvs ''image'' = Some (JStr str) \<and> trim str \<noteq> [] \<longrightarrow>
        cs_image (sanitize (JObj kvs) k) = trim str)
   \<and> ((\<forall>v. map_of kvs ''image'' = Some (JStr v) \<longrightarrow> trim v = []) \<longrightarrow>
        cs_image (sanitize (JObj kvs) k) = ''/images/placeholder.jpg'')
   \<and> (map_of kvs ''alt'' = Some (JStr str) \<and> trim str \<noteq> [] \<longrightarrow>
        cs_alt (sanitize (JObj kvs) k) = trim str)
   \<and> ((\<forall>v. map_of kvs ''alt'' = Some (JStr v) \<longrightarrow> trim v = []) \<longrightarrow>
        cs_alt (sanitize (JObj kvs) k) = cs_title (sanitize (JObj kvs) k) @ '' image'')
   \<and> sanitize (JArr ys) k =
        \<lparr>cs_id = ''slide-'' @ decimal k, cs_title = ''Untitled'',
         cs_description = ''No description provided.'', cs_image = ''/images/placeholder.jpg'',
         cs_alt = ''Untitled image''\<rparr>
   \<and> (trim str = []) = (\<forall>ch \<in> set str. is_ws ch)
   \<and> (\<exists>pre post. str = pre @ trim str @ post
         \<and> (\<forall>ch \<in> set pre. is_ws ch) \<and> (\<forall>ch \<in> set post. is_ws ch))
   \<and> (trim str \<noteq> [] \<longrightarrow> \<not> is_ws (hd (trim str)) \<and> \<not> is_ws (last (trim str)))
   \<and> foldl (\<lambda>acc ch. 10 * acc + (of_char ch - 48)) 0 (decimal k) = k
   \<and> (\<forall>ch \<in> set (decimal k). 48 \<le> (of_char ch :: nat) \<and> (of_char ch :: nat) \<le> 57)
   \<and> (0 < k \<longrightarrow> hd (decimal k) \<noteq> CHR ''0'')
   \<and> ((\<forall>ys. items \<noteq> JArr ys) \<longrightarrow> validateSlides items = [fallback])
   \<and> fallback =
        \<lparr>cs_id = ''fallback'', cs_title = ''Unavailable'',
         cs_description = ''Content could not be loaded.'',
         cs_image = ''/images/placeholder.jpg'', cs_alt = ''Placeholder image''\<rparr>
   \<and> ((\<forall>kvs. v \<noteq> JObj kvs) \<and> (\<forall>ys. v \<noteq> JArr ys) \<longrightarrow>
        validateSlides (JArr (front @ v # back)) = validateSlides (JArr (front @ back)))
   \<and> validateSlides (JArr [JObj kvs]) = [sanitize (JObj kvs) 0]
   \<and> validateSlides (JArr [JArr ys]) = [sanitize (JArr ys) 0]"
proof -
  have a: "validateSlides (JArr []) = []"
    by (simp add: validateSlides_def)
  have b: "\<not> is_array items \<longrightarrow> validateSlides items = [fallback]"
    by (cases items) (simp_all add: validateSlides_def)
  have d: "length (validateSlides (JArr xs)) = length (filter is_object xs)"
    by (simp add: validateSlides_def length_map_idx)
  have e: "validateSlides (JArr xs) = validateSlides (JArr (filter is_object xs))"
    by (simp add: validateSlides_def)
  have f: "filled sl" if "sl \<in> set (validateSlides items)" for sl
  proof (cases "is_array items")
    case True
    then obtain ys where "items = JArr ys" by (cases items) simp_all
    with that have "sl \<in> set (map_idx sanitize 0 (filter is_object ys))"
      by (simp add: validateSlides_def)
    then show ?thesis by (rule filled_map_idx)
  next
    case False
    with b that have "sl = fallback" by simp
    then show ?thesis by (simp add: filled_fallback)
  qed
  have g: "\<forall>sl \<in> set (validateSlides items).
         cs_id sl \<noteq> [] \<and> cs_title sl \<noteq> [] \<and> cs_description sl \<noteq> []
         \<and> cs_image sl \<noteq> [] \<and> cs_alt sl \<noteq> []"
    using f by (simp add: filled_def)
  have n: "k < length (filter is_object xs) \<longrightarrow>
        validateSlides (JArr xs) ! k = sanitize (filter is_object xs ! k) k"
    by (simp add: nth_validateSlides)
  have i1: "map_of kvs ''id'' = Some (JStr str) \<and> trim str \<noteq> [] \<longrightarrow>
        cs_id (sanitize (JObj kvs) k) = str"
    by (simp add: object_id_kept)
  have i2: "(\<forall>v. map_of kvs ''id'' = Some (JStr v) \<longrightarrow> trim v = []) \<longrightarrow>
        cs_id (sanitize (JObj kvs) k) = ''slide-'' @ decimal k"
    using object_id_default by blast
  have t1: "map_of kvs ''title'' = Some (JStr str) \<and> trim str \<noteq> [] \<longrightarrow>
        cs_title (sanitize (JObj kvs) k) = trim str"
    by (simp add: sanitize_fields trimmed_or_kept)
  have t2: "(\<forall>v. map_of kvs ''title'' = Some (JStr v) \<longrightarrow> trim v = []) \<longrightarrow>
        cs_title (sanitize (JObj kvs) k) = ''Untitled''"
    using field_default [of kvs "''title''"] by (simp add: sanitize_fields)
  have d1: "map_of kvs ''description'' = Some (JStr str) \<and> trim str \<noteq> [] \<longrightarrow>
        cs_description (sanitize (JObj kvs) k) = trim str"
    by (simp add: sanitize_fields trimmed_or_kept)
  have d2: "(\<forall>v. map_of kvs ''description'' = Some (JStr v) \<longrightarrow> trim v = []) \<longrightarrow>
        cs_description (sanitize (JObj kvs) k) = ''No description provided.''"
    using field_default [of kvs "''description''"] by (simp add: sanitize_fields)
  have m1: "map_of kvs ''image'' = Some (JStr str) \<and> trim str \<noteq> [] \<longrightarrow>
        cs_image (sanitize (JObj kvs) k) = trim str"
    by (simp add: sanitize_fields trimmed_or_kept)
  have m2: "(\<forall>v. map_of kvs ''image'' = Some (JStr v) \<longrightarrow> trim v = []) \<longrightarrow>
        cs_image (sanitize (JObj kvs) k) = ''/images/placeholder.jpg''"
    using field_default [of kvs "''image''"] by (simp add: sanitize_fields)
  have a1: "map_of kvs ''alt'' = Some (JStr str) \<and> trim str \<noteq> [] \<longrightarrow>
        cs_alt (sanitize (JObj kvs) k) = trim str"
    by (simp add: sanitize_fields(4) trimmed_or_kept)
  have a2: "(\<forall>v. map_of kvs ''alt'' = Some (JStr v) \<longrightarrow> trim v = []) \<longrightarrow>
        cs_alt (sanitize (JObj kvs) k) = cs_title (sanitize (JObj kvs) k) @ '' image''"
    using field_default [of kvs "''alt''"] by (simp add: sanitize_fields(4))
  have tr2: "\<exists>pre post. str = pre @ trim str @ post
         \<and> (\<forall>ch \<in> set pre. is_ws ch) \<and> (\<forall>ch \<in> set post. is_ws ch)"
    by (rule trim_surrounded)
  have tr3: "trim str \<noteq> [] \<longrightarrow> \<not> is_ws (hd (trim str)) \<and> \<not> is_ws (last (trim str))"
    using trim_ends by blast
  have dz: "0 < k \<longrightarrow> hd (decimal k) \<noteq> CHR ''0''"
    using decimal_no_leading_zero by blast
  have na: "(\<forall>ys. items \<noteq> JArr ys) \<longrightarrow> validateSlides items = [fallback]"
    by (cases items) (simp_all add: validateSlides_def)
  have fb: "fallback =
        \<lparr>cs_id = ''fallback'', cs_title = ''Unavailable'',
         cs_description = ''Content could not be loaded.'',
         cs_image = ''/images/placeholder.jpg'', cs_alt = ''Placeholder image''\<rparr>"
    by (rule fallback_def)
  have dr: "(\<forall>kvs. v \<noteq> JObj kvs) \<and> (\<forall>ys. v \<noteq> JArr ys) \<longrightarrow>
        validateSlides (JArr (front @ v # back)) = validateSlides (JArr (front @ back))"
    by (cases v) (simp_all add: validateSlides_def)
  have ko: "validateSlides (JArr [JObj kvs]) = [sanitize (JObj kvs) 0]"
    and ka: "validateSlides (JArr [JArr ys]) = [sanitize (JArr ys) 0]"
    by (simp_all add: validateSlides_def)
  show ?thesis
    by (intro conjI a b d e g n i1 i2 t1 t2 d1 d2 m1 m2 a1 a2 sanitize_array trim_empty_iff
        tr2 tr3 decimal_value decimal_digits dz na fb dr ko ka)
qed

lemma validateSlides_example:
  "validateSlides
     (JArr [JNum 3, JObj [(''title'', JStr ''  Hi ''), (''id'', JStr '' '')], JNull, JArr [],
            JObj [(''id'', JStr '' x ''), (''alt'', JNum 1)]]) =
   [\<lparr>cs_id = ''slide-0'', cs_title = ''Hi'', cs_description = ''No description provided.'',
     cs_image = ''/images/placeholder.jpg'', cs_alt = ''Hi image''\<rparr>,
    \<lparr>cs_id = ''slide-1'', cs_title = ''Untitled'', cs_description = ''No description provided.'',
     cs_image = ''/images/placeholder.jpg'', cs_alt = ''Untitled image''\<rparr>,
    \<lparr>cs_id = '' x '', cs_title = ''Untitled'', cs_description = ''No description provided.'',
     cs_image = ''/images/placeholder.jpg'', cs_alt = ''Untitled image''\<rparr>]"
  by code_simp

theorem validateSlides_sanitizes_witness:
  "\<not> is_array (JStr ''slides'') \<and> validateSlides (JStr ''slides'') = [fallback]
   \<and> length (validateSlides
        (JArr [JNum 3, JObj [(''title'', JStr ''  Hi ''), (''id'', JStr '' '')], JNull, JArr [],
               JObj [(''id'', JStr '' x ''), (''alt'', JNum 1)]])) = 3
   \<and> list_all (\<lambda>sl. cs_id sl \<noteq> [] \<and> cs_title sl \<noteq> [] \<and> cs_description sl \<noteq> []
                    \<and> cs_image sl \<noteq> [] \<and> cs_alt sl \<noteq> [])
       (validateSlides
        (JArr [JNum 3, JObj [(''title'', JStr ''  Hi ''), (''id'', JStr '' '')], JNull, JArr [],
               JObj [(''id'', JStr '' x ''), (''alt'', JNum 1)]]))
   \<and> map cs_id (validateSlides
        (JArr [JNum 3, JObj [(''title'', JStr ''  Hi ''), (''id'', JStr '' '')], JNull, JArr [],
               JObj [(''id'', JStr '' x ''), (''alt'', JNum 1)]])) =
       [''slide-0'', ''slide-1'', '' x '']
   \<and> map cs_title (validateSlides
        (JArr [JNum 3, JObj [(''title'', JStr ''  Hi ''), (''id'', JStr '' '')], JNull, JArr [],
               JObj [(''id'', JStr '' x ''), (''alt'', JNum 1)]])) =
       [''Hi'', ''Untitled'', ''Untitled'']
   \<and> map cs_alt (validateSlides
        (JArr [JNum 3, JObj [(''title'', JStr ''  Hi ''), (''id'', JStr '' '')], JNull, JArr [],
               JObj [(''id'', JStr '' x ''), (''alt'', JNum 1)]])) =
       [''Hi image'', ''Untitled image'', ''Untitled image'']
   \<and> cs_title (sanitize (JObj [(''title'', JStr ''  Hi ''), (''id'', JStr '' '')]) 0) =
       trim ''  Hi ''
   \<and> trim ''  Hi '' = ''Hi''"
proof -
  let ?items = "JArr [JNum 3, JObj [(''title'', JStr ''  Hi ''), (''id'', JStr '' '')], JNull,
                      JArr [], JObj [(''id'', JStr '' x ''), (''alt'', JNum 1)]]"
  have a: "\<not> is_array (JStr ''slides'')"
    by simp
  have b: "validateSlides (JStr ''slides'') = [fallback]"
    using validateSlides_sanitizes [where items = "JStr ''slides''", THEN conjunct2, THEN conjunct1]
      a
    by (rule mp)
  have "\<forall>sl \<in> set (validateSlides ?items).
          cs_id sl \<noteq> [] \<and> cs_title sl \<noteq> [] \<and> cs_description sl \<noteq> []
          \<and> cs_image sl \<noteq> [] \<and> cs_alt sl \<noteq> []"
    by (rule validateSlides_sanitizes [where items = ?items, THEN conjunct2, THEN conjunct2,
          THEN conjunct2, THEN conjunct2, THEN conjunct1])
  then have c: "list_all (\<lambda>sl. cs_id sl \<noteq> [] \<and> cs_title sl \<noteq> [] \<and> cs_description sl \<noteq> []
                    \<and> cs_image sl \<noteq> [] \<and> cs_alt sl \<noteq> []) (validateSlides ?items)"
    by (simp only: list_all_iff)
  have d: "length (validateSlides ?items) = 3"
    and e: "map cs_id (validateSlides ?items) = [''slide-0'', ''slide-1'', '' x '']"
    and f: "map cs_title (validateSlides ?items) = [''Hi'', ''Untitled'', ''Untitled'']"
    and g: "map cs_alt (validateSlides ?items) =
              [''Hi image'', ''Untitled image'', ''Untitled image'']"
    by (simp_all only: validateSlides_example) simp_all
  have t: "trim ''  Hi '' = ''Hi''"
    by code_simp
  then have "map_of [(''title'', JStr ''  Hi ''), (''id'', JStr '' '')] ''title'' =
               Some (JStr ''  Hi '') \<and> trim ''  Hi '' \<noteq> []"
    by simp
  then have h: "cs_title (sanitize (JObj [(''title'', JStr ''  Hi ''), (''id'', JStr '' '')]) 0) =
                  trim ''  Hi ''"
    by (rule validateSlides_sanitizes
          [where kvs = "[(''title'', JStr ''  Hi ''), (''id'', JStr '' '')]"
             and str = "''  Hi ''" and k = 0,
           THEN conjunct2, THEN conjunct2, THEN conjunct2, THEN conjunct2, THEN conjunct2,
           THEN conjunct2, THEN conjunct2, THEN conjunct2, THEN conjunct1, THEN mp])
  show ?thesis
    by (intro conjI a b c d e f g h t)
qed

section \<open>Properties of the sinks\<close>

text \<open>With a console that returns, the guarded model is the one used above.\<close>

lemma logUIEvent_env_returns:
  "logUIEvent_env (\<lambda>evt. None) name act md s = Inr (logUIEvent name act md s)"
  by (simp add: logUIEvent_env_def logUIEvent_def)

text \<open>
  \<open>logAuditEvent\<close> swallows a failure of \<open>console.info\<close> (or of the serialisation) as long
  as \<open>console.error\<close> returns.
\<close>

lemma logAuditEvent_env_swallows:
  "console_error e = None \<Longrightarrow> console_info ev = Some e \<Longrightarrow>
   logAuditEvent_env console_info console_error ev s = Inr s"
  by (simp add: logAuditEvent_env_def)

text \<open>
  C9. The claim does not hold of \<open>logUIEvent\<close>: with a \<open>console.log\<close> that throws, the
  error leaves \<open>logUIEvent\<close>, and leaves the pause handler \<open>handleHover\<close> that called it.
\<close>

theorem sink_failure_leaves_handleHover:
  "logUIEvent_env (\<lambda>evt. Some (Error ''sink down'')) ''carousel_hover_pause'' READ
     [(''pause'', MBool True)] ((initial ''t'')\<lparr>isPaused := True\<rparr>) = Inl (Error ''sink down'')
   \<and> handleHover_env (\<lambda>evt. Some (Error ''sink down'')) True (initial ''t'') =
       Inl (Error ''sink down'')"
  by (simp add: handleHover_env_def logUIEvent_env_def)

section \<open>Properties of the autoplay timer\<close>

lemma activeIndex_logUIEvent [simp]: "activeIndex (logUIEvent n a m s) = activeIndex s"
  and isPaused_logUIEvent [simp]: "isPaused (logUIEvent n a m s) = isPaused s"
  by (simp_all add: logUIEvent_def)

lemma timers_ok_empty: "0 < fresh w \<Longrightarrow> pending w = [] \<Longrightarrow> timers_ok en w"
  by (simp add: timers_ok_def)

lemma effect_ok:
  assumes "0 < fresh w" and "pending w = []" and "mounted w"
  shows "timers_ok en (autoplay_effect en w)"
  using assms
  by (auto simp add: autoplay_effect_def timers_ok_def Let_def split: option.splits)

lemma mount_ok: "timers_ok en (mount en now)"
  unfolding mount_def
  by (rule effect_ok) (simp_all add: autoplay_init_effect_def Let_def)


lemma timers_ok_cases:
  "timers_ok en w \<Longrightarrow>
   0 < fresh w \<and>
   (pending w = [] \<or>
    (\<exists>k. pending w = [(k, activeIndex (car w))] \<and> timerRef w = Some k \<and> 0 < k
         \<and> live w \<noteq> None \<and> mounted w \<and> \<not> isPaused (car w)
         \<and> cfg_enabled (cfg_of (autoplay en) (reduced w))))"
  by (cases "pending w") (auto simp add: timers_ok_def split: list.splits)

lemma cleanup_clears:
  assumes "pending w = [] \<or> (\<exists>k i. pending w = [(k, i)] \<and> timerRef w = Some k \<and> 0 < k \<and> live w \<noteq> None)"
  shows "pending (case live w of None \<Rightarrow> w | Some idx \<Rightarrow> autoplay_cleanup idx w) = []"
  using assms
  by (auto simp add: autoplay_cleanup_def split: option.splits)

lemma cleanup_keeps:
  "fresh (case live w of None \<Rightarrow> w | Some idx \<Rightarrow> autoplay_cleanup idx w) = fresh w"
  "mounted (case live w of None \<Rightarrow> w | Some idx \<Rightarrow> autoplay_cleanup idx w) = mounted w"
  "reduced (case live w of None \<Rightarrow> w | Some idx \<Rightarrow> autoplay_cleanup idx w) = reduced w"
  "activeIndex (car (case live w of None \<Rightarrow> w | Some idx \<Rightarrow> autoplay_cleanup idx w)) = activeIndex (car w)"
  "isPaused (car (case live w of None \<Rightarrow> w | Some idx \<Rightarrow> autoplay_cleanup idx w)) = isPaused (car w)"
  by (simp_all add: autoplay_cleanup_def split: option.splits)

lemma init_effect_keeps:
  "pending (autoplay_init_effect en w) = pending w"
  "fresh (autoplay_init_effect en w) = fresh w"
  "mounted (autoplay_init_effect en w) = mounted w"
  "timerRef (autoplay_init_effect en w) = timerRef w"
  "live (autoplay_init_effect en w) = live w"
  "reduced (autoplay_init_effect en w) = reduced w"
  "activeIndex (car (autoplay_init_effect en w)) = activeIndex (car w)"
  "isPaused (car (autoplay_init_effect en w)) = isPaused (car w)"
  by (simp_all add: autoplay_init_effect_def Let_def)

lemma timers_ok_cong:
  assumes "timers_ok en w"
    and "fresh v = fresh w" and "pending v = pending w \<or> pending v = []"
    and "timerRef v = timerRef w" and "live v = live w" and "mounted v = mounted w"
    and "reduced v = reduced w"
    and "activeIndex (car v) = activeIndex (car w)" and "isPaused (car v) = isPaused (car w)"
  shows "timers_ok en v"
  using assms by (auto simp add: timers_ok_def split: list.splits)

lemma deps_autoplay_eq:
  assumes "deps_autoplay en v = deps_autoplay en w"
  shows "activeIndex (car v) = activeIndex (car w)" and "isPaused (car v) = isPaused (car w)"
    and "cfg_enabled (cfg_of (autoplay en) (reduced v)) = cfg_enabled (cfg_of (autoplay en) (reduced w))"
  using assms by (simp_all add: deps_autoplay_def Let_def)

lemma run_effects_ok:
  assumes ok: "timers_ok en old"
    and f: "fresh h = fresh old" and p: "pending h = pending old \<or> pending h = []"
    and t: "timerRef h = timerRef old" and l: "live h = live old" and m: "mounted h = mounted old"
  shows "timers_ok en (run_effects en old h)"
proof (cases "mounted h")
  case False
  from timers_ok_cases [OF ok] m False have "pending old = []" and "0 < fresh old" by auto
  with p f have "pending h = []" "0 < fresh h" by auto
  with False show ?thesis by (simp add: run_effects_def timers_ok_empty)
next
  case True
  from timers_ok_cases [OF ok] have fr: "0 < fresh h" using f by simp
  have st: "pending h = [] \<or> (\<exists>k i. pending h = [(k, i)] \<and> timerRef h = Some k \<and> 0 < k \<and> live h \<noteq> None)"
    using timers_ok_cases [OF ok] p t l by auto
  show ?thesis
  proof (cases "deps_autoplay en h = deps_autoplay en old")
    case False
    let ?w1 = "case live h of None \<Rightarrow> h | Some idx \<Rightarrow> autoplay_cleanup idx h"
    let ?w2 = "if deps_init en h \<noteq> deps_init en old then autoplay_init_effect en ?w1 else ?w1"
    have "0 < fresh ?w2" "pending ?w2 = []" "mounted ?w2"
      using cleanup_clears [OF st] cleanup_keeps(1,2) [of h] fr True
      by (simp_all add: init_effect_keeps)
    then have "timers_ok en (autoplay_effect en ?w2)" by (rule effect_ok)
    moreover have "run_effects en old h = autoplay_effect en ?w2"
      using False True by (simp add: run_effects_def Let_def)
    ultimately show ?thesis by simp
  next
    case same: True
    let ?w2 = "if deps_init en h \<noteq> deps_init en old then autoplay_init_effect en h else h"
    have en: "cfg_enabled (cfg_of (autoplay en) (reduced h)) = cfg_enabled (cfg_of (autoplay en) (reduced old))"
      using deps_autoplay_eq(3) [OF same] .
    have "timers_ok en ?w2"
      using ok f p t l m deps_autoplay_eq(1,2) [OF same] en
      apply (simp add: init_effect_keeps timers_ok_def split: list.splits)
      apply auto
      done
    moreover have "run_effects en old h = ?w2"
      using same True by (simp add: run_effects_def Let_def)
    ultimately show ?thesis by simp
  qed
qed


lemma timers_ok_touches: "timers_ok en (w\<lparr>touches := x\<rparr>) = timers_ok en w"
  by (simp add: timers_ok_def split: list.splits)

lemma settle_ok:
  assumes "timers_ok en old"
    and "fresh h = fresh old" and "pending h = pending old \<or> pending h = []"
    and "timerRef h = timerRef old" and "live h = live old" and "mounted h = mounted old"
  shows "timers_ok en (settle en old h)"
proof -
  have "timers_ok en (run_effects en old h)"
    using assms by (rule run_effects_ok)
  moreover have "\<not> mounted h \<Longrightarrow> run_effects en old h = h"
    by (simp add: run_effects_def)
  ultimately show ?thesis
    by (auto simp add: settle_def Let_def timers_ok_touches)
qed

lemma fired_timer_sole:
  assumes "timers_ok en w" and "map_of (pending w) k = Some idx"
  shows "pending w = [(k, activeIndex (car w))]" and "idx = activeIndex (car w)"
  using timers_ok_cases [OF assms(1)] assms(2) by (auto split: if_splits)

lemma handle_keeps:
  assumes "timers_ok en w"
  shows "fresh (handle en e w) = fresh w"
    and "timerRef (handle en e w) = timerRef w"
    and "live (handle en e w) = live w"
    and "mounted (handle en e w) = mounted w"
    and "pending (handle en e w) = pending w \<or> pending (handle en e w) = []"
proof -
  show "fresh (handle en e w) = fresh w"
    by (cases e) (simp_all add: handle_def Let_def split: option.splits prod.splits)
  show "timerRef (handle en e w) = timerRef w"
    by (cases e) (simp_all add: handle_def Let_def split: option.splits prod.splits)
  show "live (handle en e w) = live w"
    by (cases e) (simp_all add: handle_def Let_def split: option.splits prod.splits)
  show "mounted (handle en e w) = mounted w"
    by (cases e) (simp_all add: handle_def Let_def split: option.splits prod.splits)
  show "pending (handle en e w) = pending w \<or> pending (handle en e w) = []"
  proof (cases e)
    case (TimerFires k)
    show ?thesis
    proof (cases "map_of (pending w) k")
      case None
      with TimerFires show ?thesis by (simp add: handle_def)
    next
      case (Some idx)
      from fired_timer_sole(1) [OF assms Some] Some
      have "filter (\<lambda>p. fst p \<noteq> k) (pending w) = []" by simp
      with TimerFires Some show ?thesis by (simp add: handle_def)
    qed
  qed (simp_all add: handle_def Let_def split: prod.splits)
qed

lemma unmount_ok:
  assumes "timers_ok en w"
  shows "timers_ok en (unmount w)" and "pending (unmount w) = []" and "\<not> mounted (unmount w)"
proof -
  have st: "pending w = [] \<or> (\<exists>k i. pending w = [(k, i)] \<and> timerRef w = Some k \<and> 0 < k \<and> live w \<noteq> None)"
    using timers_ok_cases [OF assms] by auto
  show p: "pending (unmount w) = []"
    using cleanup_clears [OF st] by (simp add: unmount_def)
  show "\<not> mounted (unmount w)"
    by (simp add: unmount_def)
  have "0 < fresh (unmount w)"
    using timers_ok_cases [OF assms] cleanup_keeps(1) [of w] by (simp add: unmount_def)
  then show "timers_ok en (unmount w)"
    using p by (rule timers_ok_empty)
qed

lemma dispatch_ok:
  assumes "timers_ok en w"
  shows "timers_ok en (dispatch en e w)"
proof -
  have "timers_ok en (settle en w (handle en e w))"
    using assms handle_keeps [OF assms, of e] by (intro settle_ok) simp_all
  then show ?thesis
    using assms unmount_ok(1) [OF assms] by (simp add: dispatch_def)
qed

lemma run_ok: "timers_ok en w \<Longrightarrow> timers_ok en (run en es w)"
  by (induction es arbitrary: w) (simp_all add: dispatch_ok)

lemma reachable_ok: "timers_ok en (run en es (mount en now))"
  by (rule run_ok) (rule mount_ok)

lemma unmounted_dispatch:
  assumes "timers_ok en w" and "\<not> mounted w"
  shows "dispatch en e w = w"
proof -
  from timers_ok_cases [OF assms(1)] assms(2) have p: "pending w = []" by auto
  show ?thesis
  proof (cases e)
    case (TimerFires k)
    with p have "handle en e w = w" by (simp add: handle_def)
    with assms(2) show ?thesis by (simp add: dispatch_def settle_def)
  qed (simp_all add: dispatch_def is_timer_def assms(2))
qed

lemma unmounted_run: "timers_ok en w \<Longrightarrow> \<not> mounted w \<Longrightarrow> run en es w = w"
  by (induction es) (simp_all add: unmounted_dispatch)

lemma dispatch_Unmount:
  assumes "timers_ok en w"
  shows "pending (dispatch en Unmount w) = []" and "\<not> mounted (dispatch en Unmount w)"
  using timers_ok_cases [OF assms] unmount_ok(2,3) [OF assms]
  by (auto simp add: dispatch_def)

lemma idle_no_timer:
  assumes "timers_ok en w" and "isPaused (car w) \<or> \<not> cfg_enabled (cfg_of (autoplay en) (reduced w))"
  shows "pending w = []"
  using timers_ok_cases [OF assms(1)] assms(2) by auto

lemma fire_is_next:
  assumes "timers_ok en w" and "(k, idx) \<in> set (pending w)"
  shows "car (handle en (TimerFires k) w) = next_tsx (slides_total en) Auto (car w)"
proof -
  from timers_ok_cases [OF assms(1)] assms(2)
  have p: "pending w = [(k, activeIndex (car w))]" by auto
  then show ?thesis
    by (simp add: handle_def timer_callback_def next_tsx_def)
qed

lemma transitions_logUIEvent:
  "n \<noteq> ''carousel_slide_change'' \<Longrightarrow>
   transitions (console (logUIEvent n a m s)) = transitions (console s)"
  by (simp add: logUIEvent_def transitions_def)

lemma run_effects_transitions:
  "transitions (console (car (run_effects en old h))) = transitions (console (car h))"
  by (simp add: run_effects_def Let_def autoplay_effect_def autoplay_init_effect_def
      autoplay_cleanup_def transitions_logUIEvent split: option.splits)

lemma run_effects_activeIndex:
  "activeIndex (car (run_effects en old h)) = activeIndex (car h)"
  by (simp add: run_effects_def Let_def autoplay_effect_def autoplay_init_effect_def
      autoplay_cleanup_def split: option.splits)

lemma settle_transitions:
  "transitions (console (car (settle en old h))) = transitions (console (car h))"
  by (simp add: settle_def Let_def run_effects_transitions)

lemma settle_activeIndex:
  "activeIndex (car (settle en old h)) = activeIndex (car h)"
  by (simp add: settle_def Let_def run_effects_activeIndex)

lemma effect_disabled:
  "\<not> cfg_enabled (cfg_of (autoplay en) (reduced v)) \<Longrightarrow> pending (autoplay_effect en v) = pending v"
  by (simp add: autoplay_effect_def Let_def)

text \<open>
  C8. Let \<open>w\<close> be any state the mounted component can reach. Unmounting cancels the pending
  timeout: none is pending afterwards, and whatever happens after the unmount, a timeout
  elapsing included, changes nothing, so no transition event follows. While the carousel
  is paused or autoplay is not effectively enabled no timeout is pending. A pending
  timeout that fires calls \<open>next('auto')\<close>. Effective enablement is \<open>enabled\<close> and not the
  reduced-motion preference, and without it the autoplay effect arms no timeout.
\<close>

theorem autoplay_timer_cancelled:
  assumes "w = run en evs (mount en now)"
  shows "pending (dispatch en Unmount w) = []
       \<and> (\<forall>es. run en es (dispatch en Unmount w) = dispatch en Unmount w)
       \<and> (isPaused (car w) \<or> \<not> cfg_enabled (cfg_of (autoplay en) (reduced w)) \<longrightarrow> pending w = [])
       \<and> (\<forall>k idx. (k, idx) \<in> set (pending w) \<longrightarrow>
             car (handle en (TimerFires k) w) = next_tsx (slides_total en) Auto (car w)
             \<and> activeIndex (car (dispatch en (TimerFires k) w)) =
                 activeIndex (next_tsx (slides_total en) Auto (car w))
             \<and> transitions (console (car (dispatch en (TimerFires k) w))) =
                 transitions (console (next_tsx (slides_total en) Auto (car w))))
       \<and> cfg_enabled (cfg_of (autoplay en) (reduced w)) =
           (enabled (autoplay en) = Some True \<and> \<not> reduced w)
       \<and> (\<not> cfg_enabled (cfg_of (autoplay en) (reduced v)) \<longrightarrow>
             pending (autoplay_effect en v) = pending v)"
proof -
  have ok: "timers_ok en w"
    unfolding assms by (rule reachable_ok)
  have oku: "timers_ok en (dispatch en Unmount w)"
    using ok by (rule dispatch_ok)
  have a: "pending (dispatch en Unmount w) = []"
    using ok by (rule dispatch_Unmount(1))
  have b: "\<forall>es. run en es (dispatch en Unmount w) = dispatch en Unmount w"
    using unmounted_run [OF oku dispatch_Unmount(2) [OF ok]] by simp
  have c: "isPaused (car w) \<or> \<not> cfg_enabled (cfg_of (autoplay en) (reduced w)) \<longrightarrow> pending w = []"
    using idle_no_timer [OF ok] by blast
  have d: "car (handle en (TimerFires k) w) = next_tsx (slides_total en) Auto (car w)
             \<and> activeIndex (car (dispatch en (TimerFires k) w)) =
                 activeIndex (next_tsx (slides_total en) Auto (car w))
             \<and> transitions (console (car (dispatch en (TimerFires k) w))) =
                 transitions (console (next_tsx (slides_total en) Auto (car w)))"
    if "(k, idx) \<in> set (pending w)" for k idx
  proof -
    have h: "car (handle en (TimerFires k) w) = next_tsx (slides_total en) Auto (car w)"
      using ok that by (rule fire_is_next)
    have "dispatch en (TimerFires k) w = settle en w (handle en (TimerFires k) w)"
      by (simp add: dispatch_def is_timer_def)
    then show ?thesis
      using h by (simp add: settle_transitions settle_activeIndex)
  qed
  have e: "cfg_enabled (cfg_of (autoplay en) (reduced w)) =
           (enabled (autoplay en) = Some True \<and> \<not> reduced w)"
    by (simp add: cfg_of_def)
  have f: "\<not> cfg_enabled (cfg_of (autoplay en) (reduced v)) \<longrightarrow>
             pending (autoplay_effect en v) = pending v"
    by (simp add: effect_disabled)
  show ?thesis using a b c d e f by blast
qed


lemma demo_run:
  "pending (run demo_env [TimerFires 1] (mount demo_env ''t'')) = [(2, 1)]"
  "activeIndex (car (dispatch demo_env (TimerFires 2)
      (run demo_env [TimerFires 1] (mount demo_env ''t'')))) = 2"
  "isPaused (car (run demo_env [TimerFires 1, MouseEnter] (mount demo_env ''t'')))"
  by code_simp+

theorem autoplay_timer_cancelled_witness:
  "pending (run demo_env [TimerFires 1] (mount demo_env ''t'')) = [(2, 1)]
   \<and> pending (dispatch demo_env Unmount (run demo_env [TimerFires 1] (mount demo_env ''t''))) = []
   \<and> run demo_env [TimerFires 2, ClickNext]
        (dispatch demo_env Unmount (run demo_env [TimerFires 1] (mount demo_env ''t''))) =
       dispatch demo_env Unmount (run demo_env [TimerFires 1] (mount demo_env ''t''))
   \<and> activeIndex (car (dispatch demo_env (TimerFires 2)
        (run demo_env [TimerFires 1] (mount demo_env ''t'')))) = 2
   \<and> isPaused (car (run demo_env [TimerFires 1, MouseEnter] (mount demo_env ''t'')))
   \<and> pending (run demo_env [TimerFires 1, MouseEnter] (mount demo_env ''t'')) = []"
proof -
  note t1 = autoplay_timer_cancelled [OF refl, of demo_env "[TimerFires 1]" "''t''"]
  note t2 = autoplay_timer_cancelled [OF refl, of demo_env "[TimerFires 1, MouseEnter]" "''t''"]
  have a: "pending (dispatch demo_env Unmount
             (run demo_env [TimerFires 1] (mount demo_env ''t''))) = []"
    using t1 by blast
  have b: "run demo_env [TimerFires 2, ClickNext]
        (dispatch demo_env Unmount (run demo_env [TimerFires 1] (mount demo_env ''t''))) =
       dispatch demo_env Unmount (run demo_env [TimerFires 1] (mount demo_env ''t''))"
    using t1 by blast
  have c: "pending (run demo_env [TimerFires 1, MouseEnter] (mount demo_env ''t'')) = []"
    using t2 demo_run(3) by blast
  show ?thesis using a b c demo_run by blast
qed

text \<open>
  With autoplay enabled, the touch-start handler pauses the carousel, the render that
  follows starts the swipe listeners over, and the release finds no swipe being tracked:
  the carousel stays where it was, paused, with no timeout pending. With autoplay
  disabled nothing renders between press and release, and the swipe goes through.
\<close>

lemma touch_release_after_render:
  "activeIndex (car (run demo_env
      [TouchStart \<lparr>clientX = 100, clientY = 10\<rparr>, TouchEnd \<lparr>clientX = 50, clientY = 10\<rparr>]
      (mount demo_env ''t''))) = 0"
  "isPaused (car (run demo_env
      [TouchStart \<lparr>clientX = 100, clientY = 10\<rparr>, TouchEnd \<lparr>clientX = 50, clientY = 10\<rparr>]
      (mount demo_env ''t'')))"
  "pending (run demo_env
      [TouchStart \<lparr>clientX = 100, clientY = 10\<rparr>, TouchEnd \<lparr>clientX = 50, clientY = 10\<rparr>]
      (mount demo_env ''t'')) = []"
  "activeIndex (car (run (demo_env\<lparr>autoplay := \<lparr>enabled = Some False, intervalMs = None\<rparr>\<rparr>)
      [TouchStart \<lparr>clientX = 100, clientY = 10\<rparr>, TouchEnd \<lparr>clientX = 50, clientY = 10\<rparr>]
      (mount (demo_env\<lparr>autoplay := \<lparr>enabled = Some False, intervalMs = None\<rparr>\<rparr>) ''t''))) = 1"
  by code_simp+

section \<open>Properties of image failures in the mounted widget\<close>

lemma ee_log:
  "error_events_of sid (console (logUIEvent n a m s)) =
     (if n = ''carousel_image_error'' \<and> m = [(''slideId'', MStr sid)]
      then error_events_of sid (console s) @
             [\<lparr>eventName = n, action = a, userId = ''anonymous'', timestamp = clock s, metadata = m\<rparr>]
      else error_events_of sid (console s))"
  by (simp add: logUIEvent_def error_events_of_def)

lemma ie_log [simp]: "imageErrors (logUIEvent n a m s) = imageErrors s"
  by (simp add: logUIEvent_def)

lemma quiet_goTo:
  "error_events_of sid (console (goTo tot i c s)) = error_events_of sid (console s)"
  "imageErrors (goTo tot i c s) = imageErrors s"
  by (simp_all add: goTo_unfold Let_def ee_log)

lemma quiet_nav:
  "error_events_of sid (console (next_tsx tot c s)) = error_events_of sid (console s)"
  "imageErrors (next_tsx tot c s) = imageErrors s"
  "error_events_of sid (console (prev_tsx tot c s)) = error_events_of sid (console s)"
  "imageErrors (prev_tsx tot c s) = imageErrors s"
  by (simp_all add: next_tsx_def prev_tsx_def quiet_goTo)

lemma quiet_pause:
  "error_events_of sid (console (handleHover b s)) = error_events_of sid (console s)"
  "imageErrors (handleHover b s) = imageErrors s"
  "error_events_of sid (console (handleFocus b s)) = error_events_of sid (console s)"
  "imageErrors (handleFocus b s) = imageErrors s"
  by (simp_all add: handleHover_def handleFocus_def ee_log)

lemma quiet_keys:
  "error_events_of sid (console (onKeyDown tot key s)) = error_events_of sid (console s)"
  "imageErrors (onKeyDown tot key s) = imageErrors s"
  by (simp_all add: onKeyDown_def quiet_nav)

lemma quiet_clicks:
  "error_events_of sid (console (click_prev tot s)) = error_events_of sid (console s)"
  "imageErrors (click_prev tot s) = imageErrors s"
  "error_events_of sid (console (click_next tot s)) = error_events_of sid (console s)"
  "imageErrors (click_next tot s) = imageErrors s"
  "error_events_of sid (console (click_dot tot i s)) = error_events_of sid (console s)"
  "imageErrors (click_dot tot i s) = imageErrors s"
  by (simp_all add: click_prev_def click_next_def click_dot_def ee_log quiet_nav quiet_goTo)

lemma quiet_touch_handlers:
  "error_events_of sid (console (handlers_onTouchStart cf s)) = error_events_of sid (console s)"
  "imageErrors (handlers_onTouchStart cf s) = imageErrors s"
  "error_events_of sid (console (handlers_onTouchEnd cf s)) = error_events_of sid (console s)"
  "imageErrors (handlers_onTouchEnd cf s) = imageErrors s"
  by (simp_all add: handlers_onTouchStart_def handlers_onTouchEnd_def ee_log)

lemma quiet_touch:
  "error_events_of sid (console (snd (onTouchStart cf t (sw, s)))) = error_events_of sid (console s)"
  "imageErrors (snd (onTouchStart cf t (sw, s))) = imageErrors s"
  "error_events_of sid (console (snd (onTouchEnd tot cf th t (sw, s)))) = error_events_of sid (console s)"
  "imageErrors (snd (onTouchEnd tot cf th t (sw, s))) = imageErrors s"
  by (simp_all add: onTouchStart_def onTouchEnd_def Let_def quiet_touch_handlers quiet_nav)

lemma quiet_timer:
  "error_events_of sid (console (timer_callback tot idx s)) = error_events_of sid (console s)"
  "imageErrors (timer_callback tot idx s) = imageErrors s"
  by (simp_all add: timer_callback_def quiet_goTo)

lemma quiet_handle:
  assumes "\<forall>x. e \<noteq> ImageError x"
  shows "error_events_of sid (console (car (handle en e w))) = error_events_of sid (console (car w))"
    and "imageErrors (car (handle en e w)) = imageErrors (car w)"
proof -
  have s1: "car (case onTouchStart cf t (sw, s) of (sw', c') \<Rightarrow> w\<lparr>touches := sw', car := c'\<rparr>) = snd (onTouchStart cf t (sw, s))" for cf t sw s
    by (simp split: prod.splits)
  have s2: "car (case onTouchEnd tot cf th t (sw, s) of (sw', c') \<Rightarrow> w\<lparr>touches := sw', car := c'\<rparr>) = snd (onTouchEnd tot cf th t (sw, s))" for tot cf th t sw s
    by (simp split: prod.splits)
  show "error_events_of sid (console (car (handle en e w))) = error_events_of sid (console (car w))"
    using assms
    by (cases e)
      (simp_all add: handle_def Let_def s1 s2 quiet_pause quiet_keys quiet_clicks quiet_touch quiet_timer
        split: option.splits)
  show "imageErrors (car (handle en e w)) = imageErrors (car w)"
    using assms
    by (cases e)
      (simp_all add: handle_def Let_def s1 s2 quiet_pause quiet_keys quiet_clicks quiet_touch quiet_timer
        split: option.splits)
qed

lemma quiet_run_effects:
  "error_events_of sid (console (car (run_effects en old h))) = error_events_of sid (console (car h))"
  "imageErrors (car (run_effects en old h)) = imageErrors (car h)"
  by (simp_all add: run_effects_def Let_def autoplay_effect_def autoplay_init_effect_def
      autoplay_cleanup_def ee_log split: option.splits)

lemma quiet_settle:
  "error_events_of sid (console (car (settle en old h))) = error_events_of sid (console (car h))"
  "imageErrors (car (settle en old h)) = imageErrors (car h)"
  by (simp_all add: settle_def Let_def quiet_run_effects)

lemma quiet_unmount:
  "error_events_of sid (console (car (unmount w))) = error_events_of sid (console (car w))"
  "imageErrors (car (unmount w)) = imageErrors (car w)"
  by (simp_all add: unmount_def autoplay_cleanup_def ee_log split: option.splits)


lemma ee_onImageError:
  "error_events_of x (console (onImageError sid s)) =
     (if x = sid
      then error_events_of x (console s) @
             [\<lparr>eventName = ''carousel_image_error'', action = ERROR, userId = ''anonymous'',
               timestamp = clock s, metadata = [(''slideId'', MStr sid)]\<rparr>]
      else error_events_of x (console s))"
  by (auto simp add: onImageError_def ee_log)

lemma ie_onImageError: "imageErrors (onImageError sid s) = (imageErrors s)(sid \<mapsto> True)"
  by (simp add: onImageError_def)

lemma handle_ImageError:
  "handle en (ImageError sid) w =
     (if imageErrors (car w) sid = Some True then w
      else w\<lparr>car := onImageError sid (car w), touches := idle_swipe\<rparr>)"
  by (simp add: handle_def Let_def)

lemma logged_once_handle:
  assumes "logged_once w"
  shows "logged_once (handle en e w)"
proof (cases "\<exists>x. e = ImageError x")
  case False
  then have "\<forall>x. e \<noteq> ImageError x" by simp
  with assms show ?thesis
    by (simp add: logged_once_def quiet_handle)
next
  case True
  then obtain sid where e: "e = ImageError sid" by blast
  show ?thesis
  proof (cases "imageErrors (car w) sid = Some True")
    case True
    with assms e show ?thesis by (simp add: handle_ImageError)
  next
    case False
    have "length (error_events_of x (console (car (handle en e w)))) =
            (if imageErrors (car (handle en e w)) x = Some True then 1 else 0)" for x
    proof (cases "x = sid")
      case True
      from assms False have "length (error_events_of sid (console (car w))) = 0"
        by (simp add: logged_once_def)
      with True False e show ?thesis
        by (simp add: handle_ImageError ee_onImageError ie_onImageError)
    next
      case ne: False
      from assms have "length (error_events_of x (console (car w))) =
                         (if imageErrors (car w) x = Some True then 1 else 0)"
        by (simp add: logged_once_def)
      with ne False e show ?thesis
        by (simp add: handle_ImageError ee_onImageError ie_onImageError)
    qed
    then show ?thesis by (simp add: logged_once_def)
  qed
qed

lemma logged_once_settle: "logged_once h \<Longrightarrow> logged_once (settle en old h)"
  by (simp add: logged_once_def quiet_settle)

lemma logged_once_unmount: "logged_once w \<Longrightarrow> logged_once (unmount w)"
  by (simp add: logged_once_def quiet_unmount)

lemma logged_once_dispatch: "logged_once w \<Longrightarrow> logged_once (dispatch en e w)"
  by (simp add: dispatch_def logged_once_handle logged_once_settle logged_once_unmount)

lemma logged_once_run: "logged_once w \<Longrightarrow> logged_once (run en es w)"
  by (induction es arbitrary: w) (simp_all add: logged_once_dispatch)

lemma ee_initial: "error_events_of sid (console (initial now)) = []"
  and ie_initial: "imageErrors (initial now) sid = None"
  by (simp_all add: initial_def error_events_of_def)

lemma logged_once_mount: "logged_once (mount en now)"
  by (simp add: logged_once_def mount_def autoplay_effect_def autoplay_init_effect_def Let_def
      ee_log ee_initial ie_initial split: option.splits)

lemma mounted_run_effects: "mounted (run_effects en old h) = mounted h"
  by (simp add: run_effects_def Let_def autoplay_effect_def autoplay_init_effect_def
      autoplay_cleanup_def split: option.splits)

lemma mounted_settle: "mounted (settle en old h) = mounted h"
  by (simp add: settle_def Let_def mounted_run_effects)

lemma settle_same: "settle en w w = w"
  by (simp add: settle_def run_effects_def rendered_def Let_def)

lemma ee_all_log:
  "n \<noteq> ''carousel_image_error'' \<Longrightarrow>
   error_events (console (logUIEvent n a m s)) = error_events (console s)"
  by (simp add: logUIEvent_def error_events_def)

lemma error_events_run_effects:
  "error_events (console (car (run_effects en old h))) = error_events (console (car h))"
  by (simp add: run_effects_def Let_def autoplay_effect_def autoplay_init_effect_def
      autoplay_cleanup_def ee_all_log split: option.splits)

lemma error_events_settle:
  "error_events (console (car (settle en old h))) = error_events (console (car h))"
  by (simp add: settle_def Let_def error_events_run_effects)

lemma dispatch_ImageError_flagged:
  assumes "imageErrors (car w) sid = Some True"
  shows "dispatch en (ImageError sid) w = w"
  using assms by (simp add: dispatch_def is_timer_def handle_ImageError settle_same)

lemma dispatch_ImageError_marks:
  assumes "mounted w"
  shows "imageErrors (car (dispatch en (ImageError sid) w)) sid = Some True"
    and "mounted (dispatch en (ImageError sid) w)"
  using assms
  by (simp_all add: dispatch_def is_timer_def handle_ImageError quiet_settle mounted_settle
      ie_onImageError)

lemma dispatch_ImageError_twice:
  "dispatch en (ImageError sid) (dispatch en (ImageError sid) w) = dispatch en (ImageError sid) w"
proof (cases "mounted w")
  case True
  then show ?thesis
    by (rule dispatch_ImageError_flagged [OF dispatch_ImageError_marks(1)])
next
  case False
  then show ?thesis by (simp add: dispatch_def is_timer_def)
qed

lemma dispatch_ImageError_first:
  assumes "mounted w" and "imageErrors (car w) sid \<noteq> Some True"
  shows "error_events (console (car (dispatch en (ImageError sid) w))) =
           error_events (console (car w)) @
             [\<lparr>eventName = ''carousel_image_error'', action = ERROR, userId = ''anonymous'',
               timestamp = clock (car w), metadata = [(''slideId'', MStr sid)]\<rparr>]"
  using assms
  by (simp add: dispatch_def is_timer_def handle_ImageError error_events_settle
      error_events_onImageError)

text \<open>
  C4 (as amended). In Carousel.tsx, marking a slide's image as failed is idempotent on the
  failure flags, and in every state \<open>w\<close> the mounted widget can reach, marking the same
  slide id twice emits exactly one error event: the first error of the slide's \<open>img\<close>
  flags the id and logs once, and re-marking an id that is already flagged changes
  nothing, the \<open>img\<close> having given way to the fallback block. In every reachable state
  each flagged id has exactly one error event on the console and every other id has
  none. In CarouselSlide.jsx a failure sets the slide's own flag, idempotently, and emits
  no event.
\<close>

theorem image_failure_marked_once:
  assumes "w = run en evs (mount en now)"
  shows "imageErrors (onImageError sid (onImageError sid s)) = imageErrors (onImageError sid s)
       \<and> imageErrors (onImageError sid s) sid = Some True
       \<and> dispatch en (ImageError sid) (dispatch en (ImageError sid) w) =
           dispatch en (ImageError sid) w
       \<and> (mounted w \<longrightarrow> imageErrors (car (dispatch en (ImageError sid) w)) sid = Some True)
       \<and> (mounted w \<longrightarrow>
            length (error_events_of sid
              (console (car (dispatch en (ImageError sid) (dispatch en (ImageError sid) w))))) = 1)
       \<and> (mounted w \<and> imageErrors (car w) sid \<noteq> Some True \<longrightarrow>
            error_events
              (console (car (dispatch en (ImageError sid) (dispatch en (ImageError sid) w)))) =
            error_events (console (car w)) @
              [\<lparr>eventName = ''carousel_image_error'', action = ERROR, userId = ''anonymous'',
                timestamp = clock (car w), metadata = [(''slideId'', MStr sid)]\<rparr>])
       \<and> (imageErrors (car w) sid = Some True \<longrightarrow> dispatch en (ImageError sid) w = w)
       \<and> length (error_events_of x (console (car w))) =
           (if imageErrors (car w) x = Some True then 1 else 0)
       \<and> CarouselSlide_imgError (CarouselSlide_imgError (err, j)) = CarouselSlide_imgError (err, j)
       \<and> CarouselSlide_imgError (err, j) = (True, j)"
proof -
  have ok: "logged_once w"
    unfolding assms by (rule logged_once_run) (rule logged_once_mount)
  have a: "imageErrors (onImageError sid (onImageError sid s)) = imageErrors (onImageError sid s)"
    and b: "imageErrors (onImageError sid s) sid = Some True"
    by (simp_all add: ie_onImageError)
  have c: "dispatch en (ImageError sid) (dispatch en (ImageError sid) w) =
           dispatch en (ImageError sid) w"
    by (rule dispatch_ImageError_twice)
  have d: "mounted w \<longrightarrow> imageErrors (car (dispatch en (ImageError sid) w)) sid = Some True"
    by (simp add: dispatch_ImageError_marks)
  have "logged_once (dispatch en (ImageError sid) w)"
    using ok by (rule logged_once_dispatch)
  then have e: "mounted w \<longrightarrow>
            length (error_events_of sid
              (console (car (dispatch en (ImageError sid) (dispatch en (ImageError sid) w))))) = 1"
    using d by (simp add: c logged_once_def)
  have f: "mounted w \<and> imageErrors (car w) sid \<noteq> Some True \<longrightarrow>
            error_events
              (console (car (dispatch en (ImageError sid) (dispatch en (ImageError sid) w)))) =
            error_events (console (car w)) @
              [\<lparr>eventName = ''carousel_image_error'', action = ERROR, userId = ''anonymous'',
                timestamp = clock (car w), metadata = [(''slideId'', MStr sid)]\<rparr>]"
    by (simp add: c dispatch_ImageError_first)
  have g: "imageErrors (car w) sid = Some True \<longrightarrow> dispatch en (ImageError sid) w = w"
    by (simp add: dispatch_ImageError_flagged)
  have h: "length (error_events_of x (console (car w))) =
           (if imageErrors (car w) x = Some True then 1 else 0)"
    using ok by (simp add: logged_once_def)
  have i: "CarouselSlide_imgError (CarouselSlide_imgError (err, j)) = CarouselSlide_imgError (err, j)"
    and k: "CarouselSlide_imgError (err, j) = (True, j)"
    by (simp_all add: CarouselSlide_imgError_def CarouselSlide_onError_def)
  show ?thesis using a b c d e f g h i k by blast
qed

lemma demo_errors:
  "mounted (run demo_env [ClickNext] (mount demo_env ''t''))"
  "imageErrors (car (run demo_env [ClickNext] (mount demo_env ''t''))) ''desktop'' \<noteq> Some True"
  "error_events (console (car (run demo_env [ClickNext] (mount demo_env ''t'')))) = []"
  by code_simp+

theorem image_failure_marked_once_witness:
  "mounted (run demo_env [ClickNext] (mount demo_env ''t''))
   \<and> length (error_events_of ''desktop''
        (console (car (dispatch demo_env (ImageError ''desktop'')
          (dispatch demo_env (ImageError ''desktop'')
            (run demo_env [ClickNext] (mount demo_env ''t''))))))) = 1
   \<and> length (error_events
        (console (car (dispatch demo_env (ImageError ''desktop'')
          (dispatch demo_env (ImageError ''desktop'')
            (run demo_env [ClickNext] (mount demo_env ''t''))))))) = 1
   \<and> CarouselSlide_imgError (CarouselSlide_imgError (False, Carousel_jsx 3 0 ''t'')) =
       (True, Carousel_jsx 3 0 ''t'')"
proof -
  note t = image_failure_marked_once
    [OF refl, where en = demo_env and evs = "[ClickNext]" and now = "''t''"
       and sid = "''desktop''" and err = False and j = "Carousel_jsx 3 0 ''t''"]
  let ?w = "run demo_env [ClickNext] (mount demo_env ''t'')"
  let ?u = "dispatch demo_env (ImageError ''desktop'') (dispatch demo_env (ImageError ''desktop'') ?w)"
  have a: "length (error_events_of ''desktop'' (console (car ?u))) = 1"
    using t demo_errors(1) by blast
  have "error_events (console (car ?u)) =
          error_events (console (car ?w)) @
            [\<lparr>eventName = ''carousel_image_error'', action = ERROR, userId = ''anonymous'',
              timestamp = clock (car ?w), metadata = [(''slideId'', MStr ''desktop'')]\<rparr>]"
    using t demo_errors(1,2) by blast
  then have b: "length (error_events (console (car ?u))) = 1"
    by (simp only: demo_errors(3)) simp
  have c1: "CarouselSlide_imgError (CarouselSlide_imgError (False, Carousel_jsx 3 0 ''t'')) =
              CarouselSlide_imgError (False, Carousel_jsx 3 0 ''t'')"
    and c2: "CarouselSlide_imgError (False, Carousel_jsx 3 0 ''t'') = (True, Carousel_jsx 3 0 ''t'')"
    using t by blast+
  have c: "CarouselSlide_imgError (CarouselSlide_imgError (False, Carousel_jsx 3 0 ''t'')) =
             (True, Carousel_jsx 3 0 ''t'')"
    by (rule trans [OF c1 c2])
  show ?thesis
    using demo_errors(1) a b c by blast
qed

text \<open>
  C4 as stated fails on CarouselSlide.jsx: two errors of a slide's image leave no event on
  the console, not one.
\<close>

theorem image_failure_jsx_counterexample:
  "length (console_jsx (snd (CarouselSlide_imgError (CarouselSlide_imgError
     (False, Carousel_jsx 3 0 ''t''))))) \<noteq> 1"
  by (simp add: CarouselSlide_imgError_def CarouselSlide_onError_def Carousel_jsx_def)

end
